theory Spec2Isabelle
  imports Main "HOL-Library.Multiset"
begin

section \<open>Configuration (config/default.js)\<close>

text \<open>
  Only the fields the modelled services read.  \<open>proxy_list\<close> is \<open>config.proxy.list\<close>,
  \<open>browser_maxRetries\<close>, \<open>defaultDelay_min\<close> and \<open>defaultDelay_max\<close> are the fields of
  \<open>config.browser\<close>; \<open>platform_base\<close> is \<open>config.platforms[name].urls.base\<close>, \<open>None\<close> where
  the property chain hits \<open>undefined\<close>.
\<close>

record config =
  proxy_use :: bool
  proxy_list :: "string list"
  rotationStrategy :: string
  browser_maxRetries :: int
  defaultDelay_min :: int
  defaultDelay_max :: int
  platform_base :: "string \<Rightarrow> string option"

section \<open>The world the services act on\<close>

text \<open>
  Every call that leaves the process (browser automation, backend store, notifier) is an
  \<open>event\<close>.  The trace \<open>events\<close> records the calls in the order they are made, whether they
  succeed or not.  Handles of browser processes, contexts and pages are natural numbers.
\<close>

datatype event =
    Launch string "string option"
  | NewContext nat
  | NewPage nat
  | AddCookies nat
  | SetTimeouts nat
  | ClosePage nat
  | CloseContext nat
  | CloseBrowser nat
  | Goto nat string
  | WaitForTimeout nat
  | CheckLogin nat
  | Login nat
  | AdapterApply nat
  | ScrapeJobs nat
  | SelectJob string string
  | InsertJob string string
  | UpdateJobStatus string string
  | WebhookPost string
  | TelegramPost string

text \<open>A row of the backend table \<open>jobs\<close>: the columns the duplicate check reads.\<close>

record row =
  row_platform :: string
  row_url :: string
  row_job_id :: "string option"
  row_title :: string

text \<open>
  \<open>currentProxyIndex\<close> is the module variable of proxy.service.js, \<open>browsers\<close> the module
  \<open>Map\<close> of browser.service.js (platform key to browser handle).  \<open>launched\<close> lists every
  browser process started, with the platform key its disconnect handler captured;
  \<open>gone\<close> lists the processes that have disconnected.  \<open>jobs_table\<close> is the backend table.
\<close>

record world =
  events :: "event list"
  currentProxyIndex :: nat
  browsers :: "string \<rightharpoonup> nat"
  launched :: "(nat \<times> string) list"
  gone :: "nat list"
  next_handle :: nat
  jobs_table :: "row list"

text \<open>
  The environment answers the calls: \<open>fails h c\<close> is the message of the error call \<open>c\<close>
  rejects with after history \<open>h\<close> (\<open>None\<close>: it resolves), \<open>store_error\<close> the \<open>error\<close> field a store
  call resolves with, \<open>answers\<close> the value of a boolean query, \<open>extracted\<close> the listings a
  platform scraper returns, \<open>random_index h n\<close> and \<open>random_floor n\<close> the value of
  \<open>Math.floor(Math.random() * n)\<close> (the second feeds delays only),
  \<open>url_hostname\<close> the host name \<open>new URL(url)\<close> parses (\<open>None\<close>: it throws), \<open>date_now\<close>
  the decimal text of \<open>Date.now()\<close>.
\<close>

record listing =
  l_platform :: string
  l_url :: string
  l_job_id :: string
  l_apply_url :: string
  l_title :: string
  l_company :: string

record env =
  fails :: "event list \<Rightarrow> event \<Rightarrow> string option"
  store_error :: "event list \<Rightarrow> event \<Rightarrow> string option"
  answers :: "event list \<Rightarrow> event \<Rightarrow> bool"
  extracted :: "event list \<Rightarrow> listing list"
  random_index :: "event list \<Rightarrow> nat \<Rightarrow> nat"
  random_floor :: "int \<Rightarrow> int"
  url_hostname :: "string \<Rightarrow> string option"
  date_now :: "event list \<Rightarrow> string"

definition perform :: "env \<Rightarrow> event \<Rightarrow> world \<Rightarrow> string option \<times> world" where
  "perform env c w = (fails env (events w) c, w\<lparr>events := events w @ [c]\<rparr>)"

section \<open>Errors (src/utils/errors.js) and helpers (src/utils/helpers.js)\<close>

text \<open>
  A thrown value is its class and its message.  The constructors of \<open>PlatformError\<close> and
  \<open>ApplicationError\<close> prefix the message with the platform and the job id.
\<close>

datatype error_class =
  Error | TypeError | BrowserError | PlatformError | SupabaseError | ApplicationError

datatype js_error = JsError error_class string

fun message :: "js_error \<Rightarrow> string" where
  "message (JsError c m) = m"

fun error_class_of :: "js_error \<Rightarrow> error_class" where
  "error_class_of (JsError c m) = c"

definition new_PlatformError :: "string \<Rightarrow> string \<Rightarrow> js_error" where
  "new_PlatformError platform msg = JsError PlatformError (platform @ '': '' @ msg)"

definition new_ApplicationError :: "string \<Rightarrow> string \<Rightarrow> js_error" where
  "new_ApplicationError jobId msg = JsError ApplicationError (''Job '' @ jobId @ '': '' @ msg)"

definition randomDelay :: "env \<Rightarrow> int \<Rightarrow> int \<Rightarrow> int" where
  "randomDelay env lo hi = random_floor env (hi - lo + 1) + lo"

text \<open>
  \<open>withRetry(fn, options)\<close>.  The operation \<open>fn\<close> acts on a state of its own and either
  returns (\<open>Inr\<close>) or throws (\<open>Inl\<close>); each options field is \<open>None\<close> when the caller leaves
  it out.  \<open>lastError\<close> is \<open>None\<close> while it is still \<open>undefined\<close>.  The hook \<open>onRetry\<close> is awaited
  inside the \<open>catch\<close> block, so an error it throws leaves \<open>withRetry\<close>.
\<close>

record ('e, 's) retry_options =
  opt_retries :: "int option"
  opt_minDelay :: "int option"
  opt_maxDelay :: "int option"
  opt_onRetry :: "('e \<Rightarrow> int \<Rightarrow> int \<Rightarrow> 's \<Rightarrow> ('e + unit) \<times> 's) option"

definition default_to :: "'a \<Rightarrow> 'a option \<Rightarrow> 'a" where
  "default_to d x = (case x of None \<Rightarrow> d | Some v \<Rightarrow> v)"

definition no_hook :: "'e \<Rightarrow> int \<Rightarrow> int \<Rightarrow> 's \<Rightarrow> ('e + unit) \<times> 's" where
  "no_hook error attempt delay s = (Inr (), s)"

function withRetry_loop ::
  "env \<Rightarrow> ('s \<Rightarrow> ('e + 'a) \<times> 's) \<Rightarrow> int \<Rightarrow> int \<Rightarrow> int \<Rightarrow>
   ('e \<Rightarrow> int \<Rightarrow> int \<Rightarrow> 's \<Rightarrow> ('e + unit) \<times> 's) \<Rightarrow>
   int \<Rightarrow> 'e option \<Rightarrow> 's \<Rightarrow> ('e option + 'a) \<times> 's" where
  "withRetry_loop env fn retries minDelay maxDelay onRetry attempt lastError s =
     (if attempt \<le> retries then
        (case fn s of
           (Inr v, s1) \<Rightarrow> (Inr v, s1)
         | (Inl error, s1) \<Rightarrow>
             (if attempt < retries then
                (let delay = randomDelay env minDelay maxDelay in
                 case onRetry error attempt delay s1 of
                   (Inl thrown, s2) \<Rightarrow> (Inl (Some thrown), s2)
                 | (Inr _, s2) \<Rightarrow>
                     withRetry_loop env fn retries minDelay maxDelay onRetry
                       (attempt + 1) (Some error) s2)
              else withRetry_loop env fn retries minDelay maxDelay onRetry
                     (attempt + 1) (Some error) s1))
      else (Inl lastError, s))"
  by pat_completeness auto
termination
  by (relation "measure (\<lambda>(env, fn, retries, minDelay, maxDelay, onRetry, attempt, lastError, s).
        nat (retries + 1 - attempt))") auto

declare withRetry_loop.simps [simp del]

definition withRetry ::
  "env \<Rightarrow> config \<Rightarrow> ('s \<Rightarrow> ('e + 'a) \<times> 's) \<Rightarrow> ('e, 's) retry_options \<Rightarrow> 's \<Rightarrow>
   ('e option + 'a) \<times> 's" where
  "withRetry env cfg fn options s =
     (let retries = default_to (browser_maxRetries cfg) (opt_retries options);
          minDelay = default_to (defaultDelay_min cfg) (opt_minDelay options);
          maxDelay = default_to (defaultDelay_max cfg) (opt_maxDelay options);
          onRetry = default_to no_hook (opt_onRetry options)
      in withRetry_loop env fn retries minDelay maxDelay onRetry 0 None s)"

text \<open>
  An operation that also writes each of its outcomes to a log kept beside its state: the
  log of a run of \<open>withRetry\<close> lists the attempts made, in order.
\<close>

definition logged ::
  "('s \<Rightarrow> ('e + 'a) \<times> 's) \<Rightarrow> 's \<times> ('e + 'a) list \<Rightarrow> ('e + 'a) \<times> ('s \<times> ('e + 'a) list)" where
  "logged fn = (\<lambda>(s, log). case fn s of (r, s1) \<Rightarrow> (r, (s1, log @ [r])))"

text \<open>
  \<open>extractDomain\<close> and \<open>detectPlatform\<close>.  \<open>split_dot\<close> is \<open>hostname.split(".")\<close>, \<open>join_dot\<close> is
  \<open>join(".")\<close>, \<open>str_includes\<close> is \<open>String.prototype.includes\<close>.  A missing url is \<open>None\<close>;
  \<open>new URL(undefined)\<close> throws, which \<open>extractDomain\<close> catches.
\<close>

fun split_dot_acc :: "string \<Rightarrow> string \<Rightarrow> string list" where
  "split_dot_acc acc [] = [rev acc]"
| "split_dot_acc acc (c # cs) =
     (if c = CHR ''.'' then rev acc # split_dot_acc [] cs else split_dot_acc (c # acc) cs)"

definition split_dot :: "string \<Rightarrow> string list" where
  "split_dot s = split_dot_acc [] s"

fun join_dot :: "string list \<Rightarrow> string" where
  "join_dot [] = []"
| "join_dot [p] = p"
| "join_dot (p # q # ps) = p @ ''.'' @ join_dot (q # ps)"

fun str_includes :: "string \<Rightarrow> string \<Rightarrow> bool" where
  "str_includes [] sub = (sub = [])"
| "str_includes (c # cs) sub = (take (length sub) (c # cs) = sub \<or> str_includes cs sub)"

definition extractDomain :: "env \<Rightarrow> string option \<Rightarrow> string" where
  "extractDomain env url =
     (case url of
        None \<Rightarrow> []
      | Some u \<Rightarrow>
          (case url_hostname env u of
             None \<Rightarrow> []
           | Some hostname \<Rightarrow>
               let parts = split_dot hostname in
               if length parts > 2 then join_dot (drop (length parts - 2) parts)
               else hostname))"

definition detectPlatform :: "env \<Rightarrow> string option \<Rightarrow> string option" where
  "detectPlatform env url =
     (let domain = extractDomain env url in
      if str_includes domain ''linkedin.com'' then Some ''linkedin''
      else if str_includes domain ''indeed.com'' then Some ''indeed''
      else if str_includes domain ''glassdoor.com'' then Some ''glassdoor''
      else None)"

text \<open>
  \<open>toLowerCase\<close> on the ASCII letters (platform names are ASCII), and the truth value
  JavaScript gives a possibly missing string.
\<close>

definition lower_char :: "char \<Rightarrow> char" where
  "lower_char c =
     (let n = (of_char c :: nat) in if 65 \<le> n \<and> n \<le> 90 then char_of (n + 32) else c)"

definition toLowerCase :: "string \<Rightarrow> string" where
  "toLowerCase s = map lower_char s"

definition truthy :: "string option \<Rightarrow> bool" where
  "truthy x = (case x of None \<Rightarrow> False | Some s \<Rightarrow> s \<noteq> [])"

section \<open>Proxy selector (src/services/proxy.service.js)\<close>

text \<open>
  A JavaScript array read \<open>xs[i]\<close> past the end gives \<open>undefined\<close>; the selector's result
  type has \<open>None\<close> for both \<open>null\<close> and \<open>undefined\<close>.
\<close>

definition array_get :: "'a list \<Rightarrow> nat \<Rightarrow> 'a option" where
  "array_get xs i = (if i < length xs then Some (xs ! i) else None)"

definition getNextProxy :: "config \<Rightarrow> world \<Rightarrow> string option \<times> world" where
  "getNextProxy cfg w =
     (if \<not> proxy_use cfg \<or> length (proxy_list cfg) = 0 then (None, w)
      else
        let proxy = array_get (proxy_list cfg) (currentProxyIndex w);
            w1 = w\<lparr>currentProxyIndex := (currentProxyIndex w + 1) mod length (proxy_list cfg)\<rparr>
        in (proxy, w1))"

definition getRandomProxy :: "env \<Rightarrow> config \<Rightarrow> world \<Rightarrow> string option \<times> world" where
  "getRandomProxy env cfg w =
     (if \<not> proxy_use cfg \<or> length (proxy_list cfg) = 0 then (None, w)
      else
        let randomIndex = random_index env (events w) (length (proxy_list cfg))
        in (array_get (proxy_list cfg) randomIndex, w))"

definition getProxy :: "env \<Rightarrow> config \<Rightarrow> world \<Rightarrow> string option \<times> world" where
  "getProxy env cfg w =
     (if \<not> proxy_use cfg then (None, w)
      else if rotationStrategy cfg = ''random'' then getRandomProxy env cfg w
      else getNextProxy cfg w)"

text \<open>\<open>n\<close> consecutive calls of the selector: the values returned, in order, and the world left.\<close>

fun getProxy_calls :: "nat \<Rightarrow> env \<Rightarrow> config \<Rightarrow> world \<Rightarrow> string option list \<times> world" where
  "getProxy_calls 0 env cfg w = ([], w)"
| "getProxy_calls (Suc n) env cfg w =
     (case getProxy env cfg w of
        (p, w1) \<Rightarrow> (case getProxy_calls n env cfg w1 of (ps, w2) \<Rightarrow> (p # ps, w2)))"

text \<open>The module is loaded with \<open>currentProxyIndex = 0\<close>, no browser and an empty trace.\<close>

definition initial_world :: "row list \<Rightarrow> world" where
  "initial_world table =
     \<lparr>events = [], currentProxyIndex = 0, browsers = Map.empty, launched = [], gone = [],
      next_handle = 0, jobs_table = table\<rparr>"

section \<open>Browser session pool (src/services/browser.service.js)\<close>

text \<open>
  \<open>getBrowserForPlatform(platform, {proxy, useExisting = true})\<close> returns the browser,
  context and page handles or throws.  A process is connected from its launch until it
  disconnects.  \<open>chromium_launch\<close> also registers the \<open>disconnected\<close> handler, which
  captures \<open>platformKey\<close>: the pair is kept in \<open>launched\<close>.
\<close>

record acquire_options =
  opt_proxy :: "string option"
  opt_useExisting :: "bool option"

record handles =
  h_browser :: nat
  h_context :: nat
  h_page :: nat

definition isConnected :: "world \<Rightarrow> nat \<Rightarrow> bool" where
  "isConnected w b = (b \<in> fst ` set (launched w) \<and> b \<notin> set (gone w))"

definition fresh_handle :: "world \<Rightarrow> nat \<times> world" where
  "fresh_handle w = (next_handle w, w\<lparr>next_handle := Suc (next_handle w)\<rparr>)"

definition chromium_launch ::
  "env \<Rightarrow> string \<Rightarrow> string option \<Rightarrow> world \<Rightarrow> (js_error + nat) \<times> world" where
  "chromium_launch env platformKey proxy w =
     (case perform env (Launch platformKey proxy) w of
        (Some msg, w1) \<Rightarrow> (Inl (JsError Error msg), w1)
      | (None, w1) \<Rightarrow>
          (case fresh_handle w1 of
             (browser, w2) \<Rightarrow>
               (Inr browser, w2\<lparr>launched := launched w2 @ [(browser, platformKey)]\<rparr>)))"

definition newContext :: "env \<Rightarrow> nat \<Rightarrow> world \<Rightarrow> (js_error + nat) \<times> world" where
  "newContext env browser w =
     (case perform env (NewContext browser) w of
        (Some msg, w1) \<Rightarrow> (Inl (JsError Error msg), w1)
      | (None, w1) \<Rightarrow> (case fresh_handle w1 of (context, w2) \<Rightarrow> (Inr context, w2)))"

definition newPage :: "env \<Rightarrow> nat \<Rightarrow> world \<Rightarrow> (js_error + nat) \<times> world" where
  "newPage env context w =
     (case perform env (NewPage context) w of
        (Some msg, w1) \<Rightarrow> (Inl (JsError Error msg), w1)
      | (None, w1) \<Rightarrow> (case fresh_handle w1 of (page, w2) \<Rightarrow> (Inr page, w2)))"

text \<open>
  Lines 100 to 166: the cookie file is read or exported and its cookies added to the
  context.  Every failure in there is caught and logged; \<open>answers\<close> tells whether a
  non-empty cookie list was obtained.
\<close>

definition restoreCookies :: "env \<Rightarrow> nat \<Rightarrow> world \<Rightarrow> world" where
  "restoreCookies env context w =
     (if answers env (events w) (AddCookies context)
      then snd (perform env (AddCookies context) w)
      else w)"

definition setDefaultTimeouts :: "env \<Rightarrow> nat \<Rightarrow> world \<Rightarrow> (js_error + unit) \<times> world" where
  "setDefaultTimeouts env page w =
     (case perform env (SetTimeouts page) w of
        (Some msg, w1) \<Rightarrow> (Inl (JsError Error msg), w1)
      | (None, w1) \<Rightarrow> (Inr (), w1))"

text \<open>Lines 59 to 178: launch a new process, open a context and a page, store the process.\<close>

definition create_browser ::
  "env \<Rightarrow> string \<Rightarrow> string option \<Rightarrow> world \<Rightarrow> (js_error + handles) \<times> world" where
  "create_browser env platformKey proxy w =
     (case chromium_launch env platformKey proxy w of
        (Inl e, w1) \<Rightarrow> (Inl e, w1)
      | (Inr browser, w1) \<Rightarrow>
          (case newContext env browser w1 of
             (Inl e, w2) \<Rightarrow> (Inl e, w2)
           | (Inr context, w2) \<Rightarrow>
               (case newPage env context (restoreCookies env context w2) of
                  (Inl e, w3) \<Rightarrow> (Inl e, w3)
                | (Inr page, w3) \<Rightarrow>
                    (case setDefaultTimeouts env page w3 of
                       (Inl e, w4) \<Rightarrow> (Inl e, w4)
                     | (Inr _, w4) \<Rightarrow>
                         (Inr \<lparr>h_browser = browser, h_context = context, h_page = page\<rparr>,
                          w4\<lparr>browsers := (browsers w4)(platformKey \<mapsto> browser)\<rparr>)))))"

definition getBrowserForPlatform ::
  "env \<Rightarrow> string \<Rightarrow> acquire_options \<Rightarrow> world \<Rightarrow> (js_error + handles) \<times> world" where
  "getBrowserForPlatform env platform options w =
     (let proxy = opt_proxy options;
          useExisting = default_to True (opt_useExisting options);
          platformKey = toLowerCase platform
      in case (if useExisting then browsers w platformKey else None) of
           Some browser \<Rightarrow>
             (if isConnected w browser then
                (case newContext env browser w of
                   (Inl e, w1) \<Rightarrow> (Inl e, w1)
                 | (Inr context, w1) \<Rightarrow>
                     (case newPage env context w1 of
                        (Inl e, w2) \<Rightarrow> (Inl e, w2)
                      | (Inr page, w2) \<Rightarrow>
                          (Inr \<lparr>h_browser = browser, h_context = context, h_page = page\<rparr>, w2)))
              else create_browser env platformKey proxy
                     (w\<lparr>browsers := (browsers w)(platformKey := None)\<rparr>))
         | None \<Rightarrow> create_browser env platformKey proxy w)"

text \<open>
  The \<open>disconnected\<close> handler of a process launched for \<open>platformKey\<close> deletes whatever
  entry the pool holds under that key.  \<open>disconnect b\<close> is the event: process \<open>b\<close> goes
  away and its handler runs.
\<close>

definition on_disconnected :: "string \<Rightarrow> world \<Rightarrow> world" where
  "on_disconnected platformKey w =
     (if browsers w platformKey \<noteq> None
      then w\<lparr>browsers := (browsers w)(platformKey := None)\<rparr>
      else w)"

definition disconnect :: "nat \<Rightarrow> world \<Rightarrow> world" where
  "disconnect b w =
     (if isConnected w b then
        (case map_of (launched w) b of
           Some platformKey \<Rightarrow> on_disconnected platformKey (w\<lparr>gone := b # gone w\<rparr>)
         | None \<Rightarrow> w)
      else w)"

text \<open>The processes launched for a key that are still connected.\<close>

definition live_processes :: "world \<Rightarrow> string \<Rightarrow> nat list" where
  "live_processes w key =
     filter (\<lambda>b. b \<notin> set (gone w)) (map fst (filter (\<lambda>p. snd p = key) (launched w)))"

text \<open>A run of the pool: acquisitions (platform, \<open>useExisting\<close>) and disconnect events.\<close>

datatype pool_op = Acquire string bool | Disconnect nat

fun pool_step :: "env \<Rightarrow> pool_op \<Rightarrow> world \<Rightarrow> world" where
  "pool_step env (Acquire platform useExisting) w =
     snd (getBrowserForPlatform env platform
            \<lparr>opt_proxy = None, opt_useExisting = Some useExisting\<rparr> w)"
| "pool_step env (Disconnect b) w = disconnect b w"

fun pool_run :: "env \<Rightarrow> pool_op list \<Rightarrow> world \<Rightarrow> world" where
  "pool_run env [] w = w"
| "pool_run env (x # xs) w = pool_run env xs (pool_step env x w)"

section \<open>Calls on a page, on the adapters, on the store and on the notifier\<close>

text \<open>
  application.service.js takes \<open>takeScreenshot\<close> from \<open>require("./browser.service")\<close>, whose
  \<open>module.exports\<close> holds \<open>getBrowserForPlatform\<close> and \<open>closeAllBrowsers\<close> only: the name is
  \<open>undefined\<close> there, and calling it throws a \<open>TypeError\<close> before anything is done.
\<close>

definition takeScreenshot ::
  "env \<Rightarrow> nat \<Rightarrow> string \<Rightarrow> world \<Rightarrow> (js_error + string option) \<times> world" where
  "takeScreenshot env page name w =
     (Inl (JsError TypeError ''takeScreenshot is not a function''), w)"

definition page_goto :: "env \<Rightarrow> nat \<Rightarrow> string \<Rightarrow> world \<Rightarrow> (js_error + unit) \<times> world" where
  "page_goto env page url w =
     (case perform env (Goto page url) w of
        (Some msg, w1) \<Rightarrow> (Inl (JsError Error msg), w1)
      | (None, w1) \<Rightarrow> (Inr (), w1))"

definition page_waitForTimeout :: "env \<Rightarrow> nat \<Rightarrow> world \<Rightarrow> (js_error + unit) \<times> world" where
  "page_waitForTimeout env page w =
     (case perform env (WaitForTimeout page) w of
        (Some msg, w1) \<Rightarrow> (Inl (JsError Error msg), w1)
      | (None, w1) \<Rightarrow> (Inr (), w1))"

text \<open>\<open>x.close().catch(() => {})\<close>: the call is made and a rejection is dropped.\<close>

definition close_quietly :: "env \<Rightarrow> event \<Rightarrow> world \<Rightarrow> world" where
  "close_quietly env c w = snd (perform env c w)"

text \<open>
  \<open>browser.close()\<close> in \<open>testPlatform\<close>: when the call resolves the process has
  disconnected and its handler has run.
\<close>

definition close_browser_quietly :: "env \<Rightarrow> nat \<Rightarrow> world \<Rightarrow> world" where
  "close_browser_quietly env browser w =
     (case perform env (CloseBrowser browser) w of
        (Some msg, w1) \<Rightarrow> w1
      | (None, w1) \<Rightarrow> disconnect browser w1)"

text \<open>
  The platform adapters behind \<open>getPlatformInstance\<close>.  \<open>requiresLogin\<close> is the base class
  method, which no adapter overrides.  In the orchestration the adapter methods are calls
  across the capability interface: they resolve with a value or reject with a
  \<open>PlatformError\<close>; the submission loops inside them are modelled further down.
\<close>

datatype platform_kind = LinkedIn | Indeed | Glassdoor

definition getPlatformInstance :: "string \<Rightarrow> js_error + platform_kind" where
  "getPlatformInstance platformName =
     (let name = toLowerCase platformName in
      if name = ''linkedin'' then Inr LinkedIn
      else if name = ''indeed'' then Inr Indeed
      else if name = ''glassdoor'' then Inr Glassdoor
      else Inl (new_ApplicationError ''unknown'' (''Unsupported platform: '' @ platformName)))"

definition requiresLogin :: "platform_kind \<Rightarrow> bool" where
  "requiresLogin platformInstance = True"

definition adapter_checkLogin ::
  "env \<Rightarrow> platform_kind \<Rightarrow> nat \<Rightarrow> world \<Rightarrow> (js_error + bool) \<times> world" where
  "adapter_checkLogin env platformInstance page w =
     (case perform env (CheckLogin page) w of
        (Some msg, w1) \<Rightarrow> (Inl (JsError PlatformError msg), w1)
      | (None, w1) \<Rightarrow> (Inr (answers env (events w) (CheckLogin page)), w1))"

definition adapter_login ::
  "env \<Rightarrow> platform_kind \<Rightarrow> nat \<Rightarrow> world \<Rightarrow> (js_error + bool) \<times> world" where
  "adapter_login env platformInstance page w =
     (case perform env (Login page) w of
        (Some msg, w1) \<Rightarrow> (Inl (JsError PlatformError msg), w1)
      | (None, w1) \<Rightarrow> (Inr (answers env (events w) (Login page)), w1))"

definition adapter_applyToJob ::
  "env \<Rightarrow> platform_kind \<Rightarrow> nat \<Rightarrow> world \<Rightarrow> (js_error + bool) \<times> world" where
  "adapter_applyToJob env platformInstance page w =
     (case perform env (AdapterApply page) w of
        (Some msg, w1) \<Rightarrow> (Inl (JsError PlatformError msg), w1)
      | (None, w1) \<Rightarrow> (Inr True, w1))"

text \<open>
  supabase.service.js: \<open>updateJobStatus\<close> throws the failure it meets (a rejected call, or
  the \<open>error\<close> field of the reply) as it is.  The module exports neither
  \<open>createApplication\<close> nor \<open>updateApplicationStats\<close>, which application.service.js takes
  from it: both names are \<open>undefined\<close> there and calling one throws a \<open>TypeError\<close>.
\<close>

definition store_failure :: "env \<Rightarrow> event \<Rightarrow> world \<Rightarrow> string option \<times> world" where
  "store_failure env c w =
     (case perform env c w of
        (Some msg, w1) \<Rightarrow> (Some msg, w1)
      | (None, w1) \<Rightarrow> (store_error env (events w) c, w1))"

definition updateJobStatus ::
  "env \<Rightarrow> string \<Rightarrow> string \<Rightarrow> world \<Rightarrow> (js_error + unit) \<times> world" where
  "updateJobStatus env jobId status w =
     (case store_failure env (UpdateJobStatus jobId status) w of
        (Some msg, w1) \<Rightarrow> (Inl (JsError Error msg), w1)
      | (None, w1) \<Rightarrow> (Inr (), w1))"

definition createApplication ::
  "env \<Rightarrow> string \<Rightarrow> string \<Rightarrow> world \<Rightarrow> (js_error + unit) \<times> world" where
  "createApplication env jobId status w =
     (Inl (JsError TypeError ''createApplication is not a function''), w)"

definition updateApplicationStats ::
  "env \<Rightarrow> string \<Rightarrow> string \<Rightarrow> world \<Rightarrow> (js_error + unit) \<times> world" where
  "updateApplicationStats env platform status w =
     (Inl (JsError TypeError ''updateApplicationStats is not a function''), w)"

text \<open>
  notification.service.js: both channels resolve with a boolean whatever happens (the
  webhook promise only ever resolves, the Telegram \<open>sendMessage\<close> catches).
\<close>

definition sendWebhookNotification :: "env \<Rightarrow> string \<Rightarrow> world \<Rightarrow> bool \<times> world" where
  "sendWebhookNotification env kind w =
     (case perform env (WebhookPost kind) w of
        (Some msg, w1) \<Rightarrow> (False, w1)
      | (None, w1) \<Rightarrow> (answers env (events w) (WebhookPost kind), w1))"

definition telegram_sendMessage :: "env \<Rightarrow> string \<Rightarrow> world \<Rightarrow> bool \<times> world" where
  "telegram_sendMessage env kind w =
     (case perform env (TelegramPost kind) w of
        (Some msg, w1) \<Rightarrow> (False, w1)
      | (None, w1) \<Rightarrow> (answers env (events w) (TelegramPost kind), w1))"

definition notifyError :: "env \<Rightarrow> string \<Rightarrow> world \<Rightarrow> bool \<times> world" where
  "notifyError env errorType w =
     (case sendWebhookNotification env ''error'' w of
        (webhookResult, w1) \<Rightarrow>
          (case telegram_sendMessage env errorType w1 of
             (telegramResult, w2) \<Rightarrow> (webhookResult \<or> telegramResult, w2)))"

definition notifyApplicationResults :: "env \<Rightarrow> world \<Rightarrow> bool \<times> world" where
  "notifyApplicationResults env w =
     (case sendWebhookNotification env ''application_results'' w of
        (webhookResult, w1) \<Rightarrow>
          (case telegram_sendMessage env ''application_results'' w1 of
             (telegramResult, w2) \<Rightarrow> (webhookResult \<or> telegramResult, w2)))"

section \<open>Application orchestrator (src/services/application.service.js)\<close>

record job =
  job_id :: string
  job_url :: "string option"
  job_platform :: "string option"
  job_resumeText :: "string option"
  job_coverLetter :: "string option"

record apply_result =
  r_jobId :: string
  r_platform :: string
  r_status :: string
  r_screenshotPath :: "string option"
  r_errorMessage :: "string option"

text \<open>
  The \<open>let\<close> variables of \<open>applyToJob\<close> that the \<open>catch\<close> and \<open>finally\<close> blocks read.
  \<open>browser\<close>, \<open>context\<close> and \<open>page\<close> are assigned together, so they are one optional
  triple.
\<close>

record apply_locals =
  v_handles :: "handles option"
  v_screenshotPath :: "string option"
  v_errorMessage :: "string option"
  v_status :: string

definition applyToJob_try ::
  "env \<Rightarrow> config \<Rightarrow> string \<Rightarrow> job \<Rightarrow> apply_locals \<Rightarrow> world \<Rightarrow>
   (js_error + unit) \<times> apply_locals \<times> world" where
  "applyToJob_try env cfg platform job v w =
     (case getPlatformInstance platform of
        Inl e \<Rightarrow> (Inl e, v, w)
      | Inr platformInstance \<Rightarrow>
          (case getProxy env cfg w of
             (proxy, w1) \<Rightarrow>
               (case getBrowserForPlatform env platform
                       \<lparr>opt_proxy = proxy, opt_useExisting = None\<rparr> w1 of
                  (Inl e, w2) \<Rightarrow> (Inl e, v, w2)
                | (Inr h, w2) \<Rightarrow>
                    (let v1 = v\<lparr>v_handles := Some h\<rparr>; page = h_page h in
                     case (if requiresLogin platformInstance
                           then adapter_login env platformInstance page w2
                           else (Inr True, w2)) of
                       (Inl e, w3) \<Rightarrow> (Inl e, v1, w3)
                     | (Inr _, w3) \<Rightarrow>
                         (case page_goto env page (the (job_url job)) w3 of
                            (Inl e, w4) \<Rightarrow> (Inl e, v1, w4)
                          | (Inr _, w4) \<Rightarrow>
                              (case adapter_applyToJob env platformInstance page w4 of
                                 (Inl e, w5) \<Rightarrow> (Inl e, v1, w5)
                               | (Inr _, w5) \<Rightarrow>
                                   (case takeScreenshot env page
                                           (platform @ ''_success_'' @ job_id job) w5 of
                                      (Inl e, w6) \<Rightarrow> (Inl e, v1, w6)
                                    | (Inr path, w6) \<Rightarrow>
                                        (Inr (),
                                         v1\<lparr>v_screenshotPath := path, v_status := ''success''\<rparr>,
                                         w6))))))))"

definition applyToJob_catch ::
  "env \<Rightarrow> string \<Rightarrow> job \<Rightarrow> js_error \<Rightarrow> apply_locals \<Rightarrow> world \<Rightarrow>
   (js_error + unit) \<times> apply_locals \<times> world" where
  "applyToJob_catch env platform job error v w =
     (let v1 = v\<lparr>v_errorMessage := Some (message error)\<rparr> in
      case (case v_handles v1 of
              Some h \<Rightarrow>
                (case takeScreenshot env (h_page h) (platform @ ''_error_'' @ job_id job) w of
                   (Inl e, w1) \<Rightarrow> (Inl e, v1, w1)
                 | (Inr path, w1) \<Rightarrow> (Inr (), v1\<lparr>v_screenshotPath := path\<rparr>, w1))
            | None \<Rightarrow> (Inr (), v1, w)) of
        (Inl e, v2, w2) \<Rightarrow> (Inl e, v2, w2)
      | (Inr _, v2, w2) \<Rightarrow>
          (case notifyError env ''job_application'' w2 of (sent, w3) \<Rightarrow> (Inr (), v2, w3)))"

definition applyToJob_finally ::
  "env \<Rightarrow> string \<Rightarrow> job \<Rightarrow> apply_locals \<Rightarrow> world \<Rightarrow> (js_error + unit) \<times> world" where
  "applyToJob_finally env platform job v w =
     (let w1 = (case v_handles v of
                  Some h \<Rightarrow> close_quietly env (ClosePage (h_page h)) w
                | None \<Rightarrow> w);
          w2 = (case v_handles v of
                  Some h \<Rightarrow> close_quietly env (CloseContext (h_context h)) w1
                | None \<Rightarrow> w1)
      in case updateJobStatus env (job_id job)
                (if v_status v = ''success'' then ''applied'' else ''failed'') w2 of
           (Inl e, w3) \<Rightarrow> (Inl e, w3)
         | (Inr _, w3) \<Rightarrow>
             (case createApplication env (job_id job) (v_status v) w3 of
                (Inl e, w4) \<Rightarrow> (Inl e, w4)
              | (Inr _, w4) \<Rightarrow> updateApplicationStats env platform (v_status v) w4))"

text \<open>
  \<open>try\<close>, then \<open>catch\<close> if the \<open>try\<close> block threw, then \<open>finally\<close>; an error thrown by the
  \<open>finally\<close> block replaces the outcome of the blocks before it.
\<close>

text \<open>
  \<open>applyToJob_run\<close> is \<open>applyToJob\<close> together with the value its variables \<open>browser\<close>,
  \<open>context\<close> and \<open>page\<close> hold when it exits (\<open>None\<close> while they are \<open>null\<close>).
\<close>

definition applyToJob_body ::
  "env \<Rightarrow> config \<Rightarrow> string \<Rightarrow> job \<Rightarrow> world \<Rightarrow>
   (js_error + apply_result) \<times> handles option \<times> world" where
  "applyToJob_body env cfg platform job w1 =
     (case applyToJob_try env cfg platform job
             \<lparr>v_handles = None, v_screenshotPath = None, v_errorMessage = None,
              v_status = ''failed''\<rparr> w1 of
        (r1, v1, w2) \<Rightarrow>
          (case (case r1 of
                   Inl error \<Rightarrow> applyToJob_catch env platform job error v1 w2
                 | Inr _ \<Rightarrow> (Inr (), v1, w2)) of
             (r2, v2, w3) \<Rightarrow>
               (case applyToJob_finally env platform job v2 w3 of
                  (Inl e, w4) \<Rightarrow> (Inl e, v_handles v2, w4)
                | (Inr _, w4) \<Rightarrow>
                    (case r2 of
                       Inl e \<Rightarrow> (Inl e, v_handles v2, w4)
                     | Inr _ \<Rightarrow>
                         (Inr \<lparr>r_jobId = job_id job, r_platform = platform,
                               r_status = v_status v2,
                               r_screenshotPath = v_screenshotPath v2,
                               r_errorMessage = v_errorMessage v2\<rparr>,
                          v_handles v2, w4)))))"

definition job_platform_of :: "env \<Rightarrow> job \<Rightarrow> string option" where
  "job_platform_of env job =
     (if truthy (job_platform job) then job_platform job
      else detectPlatform env (job_url job))"

definition applyToJob_run ::
  "env \<Rightarrow> config \<Rightarrow> job \<Rightarrow> world \<Rightarrow> (js_error + apply_result) \<times> handles option \<times> world" where
  "applyToJob_run env cfg job w =
     (if \<not> truthy (job_url job)
      then (Inl (new_ApplicationError (job_id job) ''Missing job URL''), None, w)
      else
        case job_platform_of env job of
          None \<Rightarrow>
            (Inl (new_ApplicationError (job_id job) ''Failed to detect platform from URL''),
             None, w)
        | Some platform \<Rightarrow>
            (case updateJobStatus env (job_id job) ''in_progress'' w of
               (Inl e, w1) \<Rightarrow> (Inl e, None, w1)
             | (Inr _, w1) \<Rightarrow> applyToJob_body env cfg platform job w1))"





record probe_result =
  p_platform :: string
  p_status :: string
  p_isLoggedIn :: bool
  p_screenshotPath :: "string option"
  p_message :: string

text \<open>
  \<open>testPlatform\<close>.  The \<open>try\<close> block also yields the handles it has assigned when it
  leaves; reading \<open>config.platforms[platformName].urls\<close> of an absent entry throws a
  \<open>TypeError\<close>.
\<close>

definition testPlatform_try ::
  "env \<Rightarrow> config \<Rightarrow> string \<Rightarrow> world \<Rightarrow> (js_error + probe_result) \<times> handles option \<times> world" where
  "testPlatform_try env cfg platformName w =
     (case getPlatformInstance platformName of
        Inl e \<Rightarrow> (Inl e, None, w)
      | Inr platformInstance \<Rightarrow>
          (case getBrowserForPlatform env platformName
                  \<lparr>opt_proxy = None, opt_useExisting = Some False\<rparr> w of
             (Inl e, w1) \<Rightarrow> (Inl e, None, w1)
           | (Inr h, w1) \<Rightarrow>
               (let page = h_page h in
                case platform_base cfg platformName of
                  None \<Rightarrow>
                    (Inl (JsError TypeError ''Cannot read properties of undefined''), Some h, w1)
                | Some platformUrl \<Rightarrow>
                    (case page_goto env page platformUrl w1 of
                       (Inl e, w2) \<Rightarrow> (Inl e, Some h, w2)
                     | (Inr _, w2) \<Rightarrow>
                         (case adapter_checkLogin env platformInstance page w2 of
                            (Inl e, w3) \<Rightarrow> (Inl e, Some h, w3)
                          | (Inr isLoggedIn, w3) \<Rightarrow>
                              (case (if \<not> isLoggedIn
                                     then adapter_login env platformInstance page w3
                                     else (Inr False, w3)) of
                                 (Inl e, w4) \<Rightarrow> (Inl e, Some h, w4)
                               | (Inr loginResult, w4) \<Rightarrow>
                                   (case takeScreenshot env page
                                           (platformName @ ''_test_'' @ date_now env (events w4))
                                           w4 of
                                      (Inl e, w5) \<Rightarrow> (Inl e, Some h, w5)
                                    | (Inr screenshotPath, w5) \<Rightarrow>
                                        (Inr \<lparr>p_platform = platformName, p_status = ''success'',
                                              p_isLoggedIn = (isLoggedIn \<or> loginResult),
                                              p_screenshotPath = screenshotPath,
                                              p_message = ''Platform '' @ platformName @
                                                '' test completed successfully''\<rparr>,
                                         Some h, w5))))))))"

definition testPlatform_catch ::
  "env \<Rightarrow> string \<Rightarrow> js_error \<Rightarrow> handles option \<Rightarrow> world \<Rightarrow> (js_error + probe_result) \<times> world" where
  "testPlatform_catch env platformName error hs w =
     (case (case hs of
              Some h \<Rightarrow>
                takeScreenshot env (h_page h)
                  (platformName @ ''_test_error_'' @ date_now env (events w)) w
            | None \<Rightarrow> (Inr None, w)) of
        (Inl e, w1) \<Rightarrow> (Inl e, w1)
      | (Inr screenshotPath, w1) \<Rightarrow>
          (Inr \<lparr>p_platform = platformName, p_status = ''error'', p_isLoggedIn = False,
                p_screenshotPath = screenshotPath,
                p_message = ''Platform test failed: '' @ message error\<rparr>, w1))"

definition testPlatform_finally ::
  "env \<Rightarrow> handles option \<Rightarrow> world \<Rightarrow> (js_error + unit) \<times> world" where
  "testPlatform_finally env hs w =
     (case hs of
        None \<Rightarrow> (Inr (), w)
      | Some h \<Rightarrow>
          (let w1 = close_quietly env (ClosePage (h_page h)) w;
               w2 = close_quietly env (CloseContext (h_context h)) w1;
               w3 = close_browser_quietly env (h_browser h) w2
           in (Inr (), w3)))"

definition testPlatform_run ::
  "env \<Rightarrow> config \<Rightarrow> string \<Rightarrow> world \<Rightarrow> (js_error + probe_result) \<times> handles option \<times> world" where
  "testPlatform_run env cfg platformName w =
     (case testPlatform_try env cfg platformName w of
        (r1, hs, w1) \<Rightarrow>
          (case (case r1 of
                   Inl error \<Rightarrow> testPlatform_catch env platformName error hs w1
                 | Inr result \<Rightarrow> (Inr result, w1)) of
             (r2, w2) \<Rightarrow>
               (case testPlatform_finally env hs w2 of
                  (Inl e, w3) \<Rightarrow> (Inl e, hs, w3)
                | (Inr _, w3) \<Rightarrow> (r2, hs, w3))))"

definition testPlatform ::
  "env \<Rightarrow> config \<Rightarrow> string \<Rightarrow> world \<Rightarrow> (js_error + probe_result) \<times> world" where
  "testPlatform env cfg platformName w =
     (case testPlatform_run env cfg platformName w of (r, hs, w') \<Rightarrow> (r, w'))"

section \<open>Scraping pipeline (scrapers/base.scraper.js and scraping.service.js)\<close>

text \<open>
  A store call either rejects, or resolves with an \<open>error\<close> field, or resolves with data.
  \<open>select_jobs\<close> is \<open>from("jobs").select("id").eq(..).eq(..).limit(1)\<close>; \<open>insert_job\<close> adds the
  row to the table.
\<close>

datatype 'a store_reply = Rejected string | Failed string | Data 'a

definition select_jobs ::
  "env \<Rightarrow> event \<Rightarrow> (row \<Rightarrow> bool) \<Rightarrow> world \<Rightarrow> row list store_reply \<times> world" where
  "select_jobs env c matches w =
     (case perform env c w of
        (Some msg, w1) \<Rightarrow> (Rejected msg, w1)
      | (None, w1) \<Rightarrow>
          (case store_error env (events w) c of
             Some msg \<Rightarrow> (Failed msg, w1)
           | None \<Rightarrow> (Data (take 1 (filter matches (jobs_table w1))), w1)))"

definition insert_job :: "env \<Rightarrow> event \<Rightarrow> row \<Rightarrow> world \<Rightarrow> unit store_reply \<times> world" where
  "insert_job env c r w =
     (case perform env c w of
        (Some msg, w1) \<Rightarrow> (Rejected msg, w1)
      | (None, w1) \<Rightarrow>
          (case store_error env (events w) c of
             Some msg \<Rightarrow> (Failed msg, w1)
           | None \<Rightarrow> (Data (), w1\<lparr>jobs_table := jobs_table w1 @ [r]\<rparr>)))"

record save_stats =
  total :: nat
  newJobs :: nat
  duplicates :: nat
  sampleTitles :: "string list"

definition count_new :: "listing \<Rightarrow> save_stats \<Rightarrow> save_stats" where
  "count_new job stats =
     stats\<lparr>newJobs := newJobs stats + 1,
           sampleTitles :=
             (if length (sampleTitles stats) < 5
              then sampleTitles stats @ [l_title job @ '' at '' @ l_company job]
              else sampleTitles stats)\<rparr>"

text \<open>
  \<open>BaseScraper.saveJobsToDatabase\<close>: the check is on \<open>(this.platform, job.url)\<close>; the body of
  the loop is inside a \<open>try\<close> whose \<open>catch\<close> logs and continues.
\<close>

fun base_save_loop ::
  "env \<Rightarrow> string \<Rightarrow> listing list \<Rightarrow> save_stats \<Rightarrow> world \<Rightarrow> save_stats \<times> world" where
  "base_save_loop env platform [] stats w = (stats, w)"
| "base_save_loop env platform (job # rest) stats w =
     (case select_jobs env (SelectJob platform (l_url job))
             (\<lambda>r. row_platform r = platform \<and> row_url r = l_url job) w of
        (Rejected msg, w1) \<Rightarrow> base_save_loop env platform rest stats w1
      | (Failed checkError, w1) \<Rightarrow> base_save_loop env platform rest stats w1
      | (Data existingJobs, w1) \<Rightarrow>
          (if length existingJobs > 0
           then base_save_loop env platform rest (stats\<lparr>duplicates := duplicates stats + 1\<rparr>) w1
           else
             (case insert_job env (InsertJob platform (l_url job))
                     \<lparr>row_platform = platform, row_url = l_url job, row_job_id = None,
                      row_title = l_title job\<rparr> w1 of
                (Rejected msg, w2) \<Rightarrow> base_save_loop env platform rest stats w2
              | (Failed insertError, w2) \<Rightarrow> base_save_loop env platform rest stats w2
              | (Data _, w2) \<Rightarrow> base_save_loop env platform rest (count_new job stats) w2)))"

definition base_saveJobsToDatabase ::
  "env \<Rightarrow> string \<Rightarrow> listing list \<Rightarrow> world \<Rightarrow> (js_error + save_stats) \<times> world" where
  "base_saveJobsToDatabase env platform jobs w =
     (let stats = \<lparr>total = length jobs, newJobs = 0, duplicates = 0, sampleTitles = []\<rparr> in
      if length jobs = 0 then (Inr stats, w)
      else case base_save_loop env platform jobs stats w of (stats1, w1) \<Rightarrow> (Inr stats1, w1))"

text \<open>
  \<open>saveJobsToDatabase\<close> of scraping.service.js: the check is on \<open>(job.platform, job.job_id)\<close>;
  there is no inner \<open>try\<close>, so a rejected call leaves the loop and is rethrown.
\<close>

fun service_save_loop ::
  "env \<Rightarrow> listing list \<Rightarrow> save_stats \<Rightarrow> world \<Rightarrow> (js_error + save_stats) \<times> world" where
  "service_save_loop env [] stats w = (Inr stats, w)"
| "service_save_loop env (job # rest) stats w =
     (case select_jobs env (SelectJob (l_platform job) (l_job_id job))
             (\<lambda>r. row_platform r = l_platform job \<and> row_job_id r = Some (l_job_id job)) w of
        (Rejected msg, w1) \<Rightarrow> (Inl (JsError Error msg), w1)
      | (Failed checkError, w1) \<Rightarrow> service_save_loop env rest stats w1
      | (Data existingJobs, w1) \<Rightarrow>
          (if length existingJobs > 0
           then service_save_loop env rest (stats\<lparr>duplicates := duplicates stats + 1\<rparr>) w1
           else
             (case insert_job env (InsertJob (l_platform job) (l_job_id job))
                     \<lparr>row_platform = l_platform job, row_url = l_apply_url job,
                      row_job_id = Some (l_job_id job), row_title = l_title job\<rparr> w1 of
                (Rejected msg, w2) \<Rightarrow> (Inl (JsError Error msg), w2)
              | (Failed insertError, w2) \<Rightarrow> service_save_loop env rest stats w2
              | (Data _, w2) \<Rightarrow> service_save_loop env rest (count_new job stats) w2)))"

definition service_saveJobsToDatabase ::
  "env \<Rightarrow> listing list \<Rightarrow> world \<Rightarrow> (js_error + save_stats) \<times> world" where
  "service_saveJobsToDatabase env jobs w =
     service_save_loop env jobs
       \<lparr>total = length jobs, newJobs = 0, duplicates = 0, sampleTitles = []\<rparr> w"

record scraper =
  s_platform :: string
  s_maxRetries :: nat

record scrape_result =
  sr_platform :: string
  sr_totalJobs :: nat
  sr_newJobs :: nat
  sr_duplicates :: nat
  sr_sampleTitles :: "string list"

text \<open>
  \<open>this.scrapeJobs(page, options)\<close> is the method each platform scraper overrides (the
  service calls \<open>scrapeLinkedInJobs\<close> and its siblings the same way): it returns the
  listings it extracted from the page or throws.
\<close>

definition scraper_scrapeJobs ::
  "env \<Rightarrow> nat \<Rightarrow> world \<Rightarrow> (js_error + listing list) \<times> world" where
  "scraper_scrapeJobs env page w =
     (case perform env (ScrapeJobs page) w of
        (Some msg, w1) \<Rightarrow> (Inl (JsError Error msg), w1)
      | (None, w1) \<Rightarrow> (Inr (extracted env (events w)), w1))"

text \<open>
  The \<open>while (retryCount < this.maxRetries)\<close> loop of \<open>BaseScraper.scrape\<close>; \<open>jobs\<close> is the
  variable the loop assigns, \<open>[]\<close> before it.
\<close>

function scrape_attempts ::
  "env \<Rightarrow> scraper \<Rightarrow> nat \<Rightarrow> nat \<Rightarrow> listing list \<Rightarrow> world \<Rightarrow> (js_error + listing list) \<times> world" where
  "scrape_attempts env sc page retryCount jobs w =
     (if retryCount < s_maxRetries sc then
        (case scraper_scrapeJobs env page w of
           (Inr found, w1) \<Rightarrow> (Inr found, w1)
         | (Inl error, w1) \<Rightarrow>
             (if retryCount + 1 \<ge> s_maxRetries sc then (Inl error, w1)
              else
                (case page_waitForTimeout env page w1 of
                   (Inl e, w2) \<Rightarrow> (Inl e, w2)
                 | (Inr _, w2) \<Rightarrow> scrape_attempts env sc page (retryCount + 1) jobs w2)))
      else (Inr jobs, w))"
  by pat_completeness auto
termination
  by (relation "measure (\<lambda>(env, sc, page, retryCount, jobs, w). s_maxRetries sc - retryCount)")
    auto

declare scrape_attempts.simps [simp del]

definition scrape_result_of :: "string \<Rightarrow> save_stats \<Rightarrow> scrape_result" where
  "scrape_result_of platform saveStats =
     \<lparr>sr_platform = platform, sr_totalJobs = total saveStats, sr_newJobs = newJobs saveStats,
      sr_duplicates = duplicates saveStats, sr_sampleTitles = sampleTitles saveStats\<rparr>"

definition scrape_try ::
  "env \<Rightarrow> config \<Rightarrow> scraper \<Rightarrow> world \<Rightarrow> (js_error + scrape_result) \<times> handles option \<times> world" where
  "scrape_try env cfg sc w =
     (case getProxy env cfg w of
        (proxy, w1) \<Rightarrow>
          (case getBrowserForPlatform env (s_platform sc)
                  \<lparr>opt_proxy = proxy, opt_useExisting = Some False\<rparr> w1 of
             (Inl e, w2) \<Rightarrow> (Inl e, None, w2)
           | (Inr h, w2) \<Rightarrow>
               (let page = h_page h in
                case setDefaultTimeouts env page w2 of
                  (Inl e, w3) \<Rightarrow> (Inl e, Some h, w3)
                | (Inr _, w3) \<Rightarrow>
                    (case scrape_attempts env sc page 0 [] w3 of
                       (Inl e, w4) \<Rightarrow> (Inl e, Some h, w4)
                     | (Inr jobs, w4) \<Rightarrow>
                         (case base_saveJobsToDatabase env (s_platform sc) jobs w4 of
                            (Inl e, w5) \<Rightarrow> (Inl e, Some h, w5)
                          | (Inr saveStats, w5) \<Rightarrow>
                              (Inr (scrape_result_of (s_platform sc) saveStats), Some h, w5))))))"

text \<open>The \<open>finally\<close> block of both scrape operations: \<open>page.close()\<close>, then \<open>context.close()\<close>.\<close>

definition scrape_finally :: "env \<Rightarrow> handles option \<Rightarrow> world \<Rightarrow> (js_error + unit) \<times> world" where
  "scrape_finally env hs w =
     (case hs of
        None \<Rightarrow> (Inr (), w)
      | Some h \<Rightarrow>
          (let w1 = close_quietly env (ClosePage (h_page h)) w;
               w2 = close_quietly env (CloseContext (h_context h)) w1
           in (Inr (), w2)))"

text \<open>
  As for \<open>applyToJob\<close>, the \<open>_run\<close> functions also give the handles held at the exit.
\<close>

definition scrape_run ::
  "env \<Rightarrow> config \<Rightarrow> scraper \<Rightarrow> string option \<Rightarrow> world \<Rightarrow>
   (js_error + scrape_result) \<times> handles option \<times> world" where
  "scrape_run env cfg sc keywords w =
     (if \<not> truthy keywords then (Inl (JsError Error ''Keywords are required''), None, w)
      else
        case scrape_try env cfg sc w of
          (r1, hs, w1) \<Rightarrow>
            (case (case r1 of
                     Inl error \<Rightarrow>
                       (Inl (new_PlatformError (s_platform sc)
                               (''Scraping failed: '' @ message error)), w1)
                   | Inr result \<Rightarrow> (Inr result, w1)) of
               (r2, w2) \<Rightarrow>
                 (case scrape_finally env hs w2 of
                    (Inl e, w3) \<Rightarrow> (Inl e, hs, w3)
                  | (Inr _, w3) \<Rightarrow> (r2, hs, w3))))"

definition scrape ::
  "env \<Rightarrow> config \<Rightarrow> scraper \<Rightarrow> string option \<Rightarrow> world \<Rightarrow> (js_error + scrape_result) \<times> world" where
  "scrape env cfg sc keywords w =
     (case scrape_run env cfg sc keywords w of (r, hs, w') \<Rightarrow> (r, w'))"

definition service_scrape_try ::
  "env \<Rightarrow> config \<Rightarrow> string \<Rightarrow> world \<Rightarrow> (js_error + scrape_result) \<times> handles option \<times> world" where
  "service_scrape_try env cfg platform w =
     (case getProxy env cfg w of
        (proxy, w1) \<Rightarrow>
          (case getBrowserForPlatform env platform
                  \<lparr>opt_proxy = proxy, opt_useExisting = Some False\<rparr> w1 of
             (Inl e, w2) \<Rightarrow> (Inl e, None, w2)
           | (Inr h, w2) \<Rightarrow>
               (case scraper_scrapeJobs env (h_page h) w2 of
                  (Inl e, w3) \<Rightarrow> (Inl e, Some h, w3)
                | (Inr jobs, w3) \<Rightarrow>
                    (case service_saveJobsToDatabase env jobs w3 of
                       (Inl e, w4) \<Rightarrow> (Inl e, Some h, w4)
                     | (Inr saveStats, w4) \<Rightarrow>
                         (Inr (scrape_result_of platform saveStats), Some h, w4)))))"

text \<open>
  \<open>scrapeJobs\<close> of scraping.service.js.  Its \<open>switch\<close> accepts the three platform names
  \<open>getPlatformInstance\<close> accepts; its \<open>catch\<close> block rethrows the error unchanged.
\<close>

definition service_scrapeJobs_run ::
  "env \<Rightarrow> config \<Rightarrow> string option \<Rightarrow> string option \<Rightarrow> world \<Rightarrow>
   (js_error + scrape_result) \<times> handles option \<times> world" where
  "service_scrapeJobs_run env cfg platform keywords w =
     (if \<not> truthy platform then (Inl (JsError Error ''Platform is required''), None, w)
      else if \<not> truthy keywords then (Inl (JsError Error ''Keywords are required''), None, w)
      else
        case getPlatformInstance (the platform) of
          Inl unsupported \<Rightarrow>
            (Inl (JsError Error (''Unsupported platform: '' @ the platform)), None, w)
        | Inr scrapeFunction \<Rightarrow>
            (case service_scrape_try env cfg (the platform) w of
               (r1, hs, w1) \<Rightarrow>
                 (case scrape_finally env hs w1 of
                    (Inl e, w2) \<Rightarrow> (Inl e, hs, w2)
                  | (Inr _, w2) \<Rightarrow> (r1, hs, w2))))"

definition service_scrapeJobs ::
  "env \<Rightarrow> config \<Rightarrow> string option \<Rightarrow> string option \<Rightarrow> world \<Rightarrow>
   (js_error + scrape_result) \<times> world" where
  "service_scrapeJobs env cfg platform keywords w =
     (case service_scrapeJobs_run env cfg platform keywords w of (r, hs, w') \<Rightarrow> (r, w'))"

section \<open>Multi-step submission loops of the platform adapters (src/platforms)\<close>

text \<open>
  Inside an adapter the page is a state machine given by a fixture over page states \<open>'p\<close>:
  \<open>elementExists\<close> is \<open>this.elementExists(page, selector)\<close>, which never throws; \<open>click\<close> is
  \<open>this.click(page, selector)\<close>, \<open>Inl msg\<close> when it throws \<open>PlatformError(platform, msg)\<close>;
  \<open>fill_step\<close> is the form filler of the platform (\<open>fillCurrentStepInputs\<close>,
  \<open>fillIndeedFormStep\<close>, \<open>fillGlassdoorFormStep\<close>), which catches every error;
  \<open>elementText\<close> is \<open>getElementText\<close> (\<open>None\<close> for \<open>null\<close>); \<open>waitForSelector\<close> and
  \<open>waitForTimeout\<close> are the calls on the page, \<open>Some msg\<close> when they reject; \<open>body_text\<close> is
  \<open>page.$eval("body", el => el.innerText)\<close>, \<open>Inl msg\<close> when it rejects.  The selectors are
  named: \<open>NextButton\<close>, \<open>SubmitButton\<close> and \<open>ReviewButton\<close> stand for the continue, submit
  and review selectors of the platform at hand.
\<close>

datatype selector =
    JobDetails | ApplyButton | AlreadyApplied | EasyApplyContent
  | NextButton | SubmitButton | ReviewButton | SuccessFeedback | ErrorFeedback

record 'p fixture =
  elementExists :: "'p \<Rightarrow> selector \<Rightarrow> bool"
  click :: "'p \<Rightarrow> selector \<Rightarrow> string + 'p"
  fill_step :: "'p \<Rightarrow> 'p"
  elementText :: "'p \<Rightarrow> selector \<Rightarrow> string option"
  waitForSelector :: "'p \<Rightarrow> selector \<Rightarrow> string option"
  waitForTimeout :: "'p \<Rightarrow> string option"
  body_text :: "'p \<Rightarrow> string + string"

text \<open>
  What one iteration does, in order: the waits, the checks for the three navigation
  controls, the filling of the step, the clicks.  An iteration goes round the loop again,
  returns, or throws.
\<close>

datatype form_action = Wait | Inspect selector | Fill | Click selector

datatype ('p, 'a) iteration = Again 'p | Returned 'a 'p | Threw js_error 'p

definition text_or_null :: "string option \<Rightarrow> string" where
  "text_or_null t = (case t of None \<Rightarrow> ''null'' | Some s \<Rightarrow> s)"

text \<open>The body of \<open>while (true)\<close> in \<open>LinkedInPlatform.applyToJob\<close> (lines 154 to 225).\<close>

definition linkedin_iteration :: "'p fixture \<Rightarrow> 'p \<Rightarrow> form_action list \<times> ('p, bool) iteration" where
  "linkedin_iteration fx p =
     (case waitForTimeout fx p of
        Some msg \<Rightarrow> ([Wait], Threw (JsError Error msg) p)
      | None \<Rightarrow>
          (let hasNextButton = elementExists fx p NextButton;
               hasSubmitButton = elementExists fx p SubmitButton;
               hasReviewButton = elementExists fx p ReviewButton;
               inspected = [Wait, Inspect NextButton, Inspect SubmitButton, Inspect ReviewButton];
               p1 = fill_step fx p
           in if hasReviewButton then
                (case click fx p1 ReviewButton of
                   Inl msg \<Rightarrow>
                     (inspected @ [Fill, Click ReviewButton],
                      Threw (new_PlatformError ''linkedin'' msg) p1)
                 | Inr p2 \<Rightarrow> (inspected @ [Fill, Click ReviewButton], Again p2))
              else if hasSubmitButton then
                (case click fx p1 SubmitButton of
                   Inl msg \<Rightarrow>
                     (inspected @ [Fill, Click SubmitButton],
                      Threw (new_PlatformError ''linkedin'' msg) p1)
                 | Inr p2 \<Rightarrow>
                     (case waitForTimeout fx p2 of
                        Some msg \<Rightarrow>
                          (inspected @ [Fill, Click SubmitButton, Wait],
                           Threw (JsError Error msg) p2)
                      | None \<Rightarrow>
                          (if elementExists fx p2 SuccessFeedback then
                             (inspected @ [Fill, Click SubmitButton, Wait, Inspect SuccessFeedback],
                              Returned True p2)
                           else if elementExists fx p2 ErrorFeedback then
                             (inspected @ [Fill, Click SubmitButton, Wait, Inspect SuccessFeedback,
                                           Inspect ErrorFeedback],
                              Threw (new_PlatformError ''linkedin''
                                       (''Application failed: '' @
                                        text_or_null (elementText fx p2 ErrorFeedback))) p2)
                           else
                             (inspected @ [Fill, Click SubmitButton, Wait, Inspect SuccessFeedback,
                                           Inspect ErrorFeedback],
                              Returned True p2))))
              else if hasNextButton then
                (case click fx p1 NextButton of
                   Inl msg \<Rightarrow>
                     (inspected @ [Fill, Click NextButton],
                      Threw (new_PlatformError ''linkedin'' msg) p1)
                 | Inr p2 \<Rightarrow> (inspected @ [Fill, Click NextButton], Again p2))
              else
                (inspected @ [Fill],
                 Threw (new_PlatformError ''linkedin''
                          ''Could not find navigation buttons in application form'') p1)))"

text \<open>
  The loop itself has no bound in the source, so it is a partial function: \<open>None\<close> is a
  run that never leaves the loop.  The second component of the state is the list of
  actions performed so far.
\<close>

partial_function (option) linkedin_loop ::
  "'p fixture \<Rightarrow> 'p \<times> form_action list \<Rightarrow> ((js_error + bool) \<times> 'p \<times> form_action list) option" where
  "linkedin_loop fx s =
     (case linkedin_iteration fx (fst s) of
        (acts, Again p') \<Rightarrow> linkedin_loop fx (p', snd s @ acts)
      | (acts, Returned v p') \<Rightarrow> Some (Inr v, p', snd s @ acts)
      | (acts, Threw e p') \<Rightarrow> Some (Inl e, p', snd s @ acts))"

text \<open>
  \<open>LinkedInPlatform.applyToJob\<close>: the checks before the loop, the loop, and the \<open>catch\<close> that
  wraps every error in a \<open>PlatformError\<close>.
\<close>

definition linkedin_wrap :: "js_error + bool \<Rightarrow> js_error + bool" where
  "linkedin_wrap r =
     (case r of
        Inl error \<Rightarrow> Inl (new_PlatformError ''linkedin'' (''Application failed: '' @ message error))
      | Inr v \<Rightarrow> Inr v)"

definition linkedin_applyToJob ::
  "'p fixture \<Rightarrow> 'p \<Rightarrow> ((js_error + bool) \<times> 'p \<times> form_action list) option" where
  "linkedin_applyToJob fx p =
     map_option (\<lambda>(r, s). (linkedin_wrap r, s))
       (if \<not> elementExists fx p JobDetails
        then Some (Inl (new_PlatformError ''linkedin'' ''Not on a job details page''), p,
                   [Inspect JobDetails])
        else if \<not> elementExists fx p ApplyButton then
          (if elementExists fx p AlreadyApplied
           then Some (Inr True, p, [Inspect JobDetails, Inspect ApplyButton, Inspect AlreadyApplied])
           else Some (Inl (new_PlatformError ''linkedin'' ''Apply button not found''), p,
                      [Inspect JobDetails, Inspect ApplyButton, Inspect AlreadyApplied]))
        else
          (case click fx p ApplyButton of
             Inl msg \<Rightarrow>
               Some (Inl (new_PlatformError ''linkedin'' msg), p,
                     [Inspect JobDetails, Inspect ApplyButton, Click ApplyButton])
           | Inr p1 \<Rightarrow>
               (case waitForSelector fx p1 EasyApplyContent of
                  Some msg \<Rightarrow>
                    Some (Inl (JsError Error msg), p1,
                          [Inspect JobDetails, Inspect ApplyButton, Click ApplyButton])
                | None \<Rightarrow>
                    linkedin_loop fx
                      (p1, [Inspect JobDetails, Inspect ApplyButton, Click ApplyButton]))))"

text \<open>
  The body of \<open>while (true)\<close> in \<open>handleIndeedApplyForm\<close> and \<open>handleGlassdoorApplyForm\<close>, which
  differ in the platform name and in the selectors only.  A click on the submit control
  is followed by \<open>break\<close>, a click on the review or the continue control by the wait that
  ends the iteration (\<open>click_then_wait\<close>); the \<open>catch\<close> around the loop rethrows the error
  as it is.
\<close>

definition click_then_wait ::
  "string \<Rightarrow> 'p fixture \<Rightarrow> 'p \<Rightarrow> form_action list \<Rightarrow> selector \<Rightarrow>
   form_action list \<times> ('p, unit) iteration" where
  "click_then_wait platform fx p1 inspected control =
     (case click fx p1 control of
        Inl msg \<Rightarrow> (inspected @ [Click control], Threw (new_PlatformError platform msg) p1)
      | Inr p2 \<Rightarrow>
          (case waitForTimeout fx p2 of
             Some msg \<Rightarrow> (inspected @ [Click control, Wait], Threw (JsError Error msg) p2)
           | None \<Rightarrow> (inspected @ [Click control, Wait], Again p2)))"

definition form_iteration ::
  "string \<Rightarrow> 'p fixture \<Rightarrow> 'p \<Rightarrow> form_action list \<times> ('p, unit) iteration" where
  "form_iteration platform fx p =
     (case waitForTimeout fx p of
        Some msg \<Rightarrow> ([Wait], Threw (JsError Error msg) p)
      | None \<Rightarrow>
          (let p1 = fill_step fx p;
               hasContinueButton = elementExists fx p1 NextButton;
               hasSubmitButton = elementExists fx p1 SubmitButton;
               hasReviewButton = elementExists fx p1 ReviewButton;
               inspected = [Wait, Fill, Inspect NextButton, Inspect SubmitButton,
                            Inspect ReviewButton]
           in if hasSubmitButton then
                (case click fx p1 SubmitButton of
                   Inl msg \<Rightarrow>
                     (inspected @ [Click SubmitButton], Threw (new_PlatformError platform msg) p1)
                 | Inr p2 \<Rightarrow> (inspected @ [Click SubmitButton], Returned () p2))
              else if hasReviewButton then
                click_then_wait platform fx p1 inspected ReviewButton
              else if hasContinueButton then
                click_then_wait platform fx p1 inspected NextButton
              else
                (case body_text fx p1 of
                   Inl msg \<Rightarrow> (inspected, Threw (JsError Error msg) p1)
                 | Inr possibleError \<Rightarrow>
                     (inspected,
                      Threw (new_PlatformError platform
                               (''Could not find navigation buttons in application form. ''
                                @ ''Page text: '' @ take 200 possibleError @ ''...''))
                        p1))))"

partial_function (option) form_loop ::
  "string \<Rightarrow> 'p fixture \<Rightarrow> 'p \<times> form_action list \<Rightarrow>
   ((js_error + unit) \<times> 'p \<times> form_action list) option" where
  "form_loop platform fx s =
     (case form_iteration platform fx (fst s) of
        (acts, Again p') \<Rightarrow> form_loop platform fx (p', snd s @ acts)
      | (acts, Returned v p') \<Rightarrow> Some (Inr v, p', snd s @ acts)
      | (acts, Threw e p') \<Rightarrow> Some (Inl e, p', snd s @ acts))"

definition handleIndeedApplyForm ::
  "'p fixture \<Rightarrow> 'p \<Rightarrow> ((js_error + unit) \<times> 'p \<times> form_action list) option" where
  "handleIndeedApplyForm fx p = form_loop ''indeed'' fx (p, [])"

definition handleGlassdoorApplyForm ::
  "'p fixture \<Rightarrow> 'p \<Rightarrow> ((js_error + unit) \<times> 'p \<times> form_action list) option" where
  "handleGlassdoorApplyForm fx p = form_loop ''glassdoor'' fx (p, [])"

text \<open>The same loops cut off after \<open>n\<close> iterations: \<open>None\<close> when the \<open>n\<close> iterations are used up.\<close>

fun linkedin_loop_upto ::
  "nat \<Rightarrow> 'p fixture \<Rightarrow> 'p \<times> form_action list \<Rightarrow>
   ((js_error + bool) \<times> 'p \<times> form_action list) option" where
  "linkedin_loop_upto 0 fx s = None"
| "linkedin_loop_upto (Suc n) fx s =
     (case linkedin_iteration fx (fst s) of
        (acts, Again p') \<Rightarrow> linkedin_loop_upto n fx (p', snd s @ acts)
      | (acts, Returned v p') \<Rightarrow> Some (Inr v, p', snd s @ acts)
      | (acts, Threw e p') \<Rightarrow> Some (Inl e, p', snd s @ acts))"

fun form_loop_upto ::
  "nat \<Rightarrow> string \<Rightarrow> 'p fixture \<Rightarrow> 'p \<times> form_action list \<Rightarrow>
   ((js_error + unit) \<times> 'p \<times> form_action list) option" where
  "form_loop_upto 0 platform fx s = None"
| "form_loop_upto (Suc n) platform fx s =
     (case form_iteration platform fx (fst s) of
        (acts, Again p') \<Rightarrow> form_loop_upto n platform fx (p', snd s @ acts)
      | (acts, Returned v p') \<Rightarrow> Some (Inr v, p', snd s @ acts)
      | (acts, Threw e p') \<Rightarrow> Some (Inl e, p', snd s @ acts))"

text \<open>
  Reading the actions of an iteration: \<open>clicks\<close> keeps the clicks; \<open>chosen order found\<close> is
  the click on the first control of \<open>order\<close> that \<open>found\<close> holds of, none when there is no
  such control.
\<close>

definition clicks :: "form_action list \<Rightarrow> form_action list" where
  "clicks acts = filter (\<lambda>a. case a of Click control \<Rightarrow> True | _ \<Rightarrow> False) acts"

definition chosen :: "selector list \<Rightarrow> (selector \<Rightarrow> bool) \<Rightarrow> form_action list" where
  "chosen order found = map Click (take 1 (filter found order))"

section \<open>Reading a trace and a table\<close>

text \<open>
  The calls fall into five kinds.  \<open>closes\<close> keeps the close calls of a trace,
  \<open>attempt_pages\<close> the pages of its \<open>scrapeJobs\<close> calls, \<open>page_openings\<close> its \<open>newPage\<close> calls;
  \<open>release_of hs\<close> is what releasing the page and the context of \<open>hs\<close> looks like in a
  trace, \<open>release_all_of hs\<close> the same with the browser process closed as well.
\<close>

datatype event_kind = Acquiring | PageUse | Store | Notify | Closing

fun kind :: "event \<Rightarrow> event_kind" where
  "kind (Launch k p) = Acquiring"
| "kind (NewContext b) = Acquiring"
| "kind (NewPage c) = Acquiring"
| "kind (AddCookies c) = Acquiring"
| "kind (SetTimeouts p) = Acquiring"
| "kind (ClosePage p) = Closing"
| "kind (CloseContext c) = Closing"
| "kind (CloseBrowser b) = Closing"
| "kind (Goto p u) = PageUse"
| "kind (WaitForTimeout p) = PageUse"
| "kind (CheckLogin p) = PageUse"
| "kind (Login p) = PageUse"
| "kind (AdapterApply p) = PageUse"
| "kind (ScrapeJobs p) = PageUse"
| "kind (SelectJob p u) = Store"
| "kind (InsertJob p u) = Store"
| "kind (UpdateJobStatus j s) = Store"
| "kind (WebhookPost k) = Notify"
| "kind (TelegramPost k) = Notify"

definition closes :: "event list \<Rightarrow> event list" where
  "closes evs = filter (\<lambda>e. kind e = Closing) evs"

definition attempt_pages :: "event list \<Rightarrow> nat list" where
  "attempt_pages evs = concat (map (\<lambda>e. case e of ScrapeJobs p \<Rightarrow> [p] | _ \<Rightarrow> []) evs)"

definition page_openings :: "event list \<Rightarrow> event list" where
  "page_openings evs = filter (\<lambda>e. case e of NewPage c \<Rightarrow> True | _ \<Rightarrow> False) evs"

definition release_of :: "handles option \<Rightarrow> event list" where
  "release_of hs =
     (case hs of None \<Rightarrow> [] | Some h \<Rightarrow> [ClosePage (h_page h), CloseContext (h_context h)])"

definition release_all_of :: "handles option \<Rightarrow> event list" where
  "release_all_of hs =
     (case hs of
        None \<Rightarrow> []
      | Some h \<Rightarrow> [ClosePage (h_page h), CloseContext (h_context h), CloseBrowser (h_browser h)])"

text \<open>\<open>only_adds S w w'\<close>: the trace of \<open>w'\<close> is that of \<open>w\<close> followed by calls of the kinds \<open>S\<close>.\<close>

definition only_adds :: "event_kind set \<Rightarrow> world \<Rightarrow> world \<Rightarrow> bool" where
  "only_adds S w w' = (\<exists>xs. events w' = events w @ xs \<and> list_all (\<lambda>e. kind e \<in> S) xs)"

text \<open>Whether the table holds a row with the key a duplicate check looks for.\<close>

definition known_url :: "row list \<Rightarrow> string \<Rightarrow> string \<Rightarrow> bool" where
  "known_url table platform url =
     (filter (\<lambda>r. row_platform r = platform \<and> row_url r = url) table \<noteq> [])"

definition known_job_id :: "row list \<Rightarrow> string \<Rightarrow> string \<Rightarrow> bool" where
  "known_job_id table platform jobId =
     (filter (\<lambda>r. row_platform r = platform \<and> row_job_id r = Some jobId) table \<noteq> [])"

text \<open>
  The pool as an operation sees it: the module \<open>Map\<close>, the processes launched, those that
  have disconnected, and the next handle.  \<open>handles_issued w\<close>: every process that has
  disconnected carries a handle that was issued.
\<close>

definition pool_of :: "world \<Rightarrow> (string \<rightharpoonup> nat) \<times> (nat \<times> string) list \<times> nat list \<times> nat" where
  "pool_of w = (browsers w, launched w, gone w, next_handle w)"

definition handles_issued :: "world \<Rightarrow> bool" where
  "handles_issued w = list_all (\<lambda>b. b < next_handle w) (gone w)"

text \<open>
  \<open>pool_inv\<close>: the processes launched and those that have disconnected carry handles that
  were issued, distinct for distinct launches, and every process still connected is the
  entry the pool holds under the key it was launched for.
\<close>

definition pool_inv :: "world \<Rightarrow> bool" where
  "pool_inv w =
     (handles_issued w \<and> distinct (map fst (launched w)) \<and>
      (\<forall>(b, k) \<in> set (launched w).
         b < next_handle w \<and> (b \<notin> set (gone w) \<longrightarrow> browsers w k = Some b)))"

fun reuse_enabled :: "pool_op \<Rightarrow> bool" where
  "reuse_enabled (Acquire platform useExisting) = useExisting"
| "reuse_enabled (Disconnect b) = True"

text \<open>
  \<open>available_for_reuse w platform hs\<close>: the process of \<open>hs\<close> is connected and is the entry the
  pool holds for the platform, so that an acquisition with \<open>useExisting\<close> takes it.
\<close>

definition available_for_reuse :: "world \<Rightarrow> string \<Rightarrow> handles option \<Rightarrow> bool" where
  "available_for_reuse w platform hs =
     (case hs of
        None \<Rightarrow> True
      | Some h \<Rightarrow>
          isConnected w (h_browser h) \<and> browsers w (toLowerCase platform) = Some (h_browser h))"

text \<open>
  The handles an operation receives from the pool: what its call of
  \<open>getBrowserForPlatform\<close> returns, \<open>None\<close> when the operation does not reach the call or
  the call throws.
\<close>

definition scrape_acquired ::
  "env \<Rightarrow> config \<Rightarrow> scraper \<Rightarrow> string option \<Rightarrow> world \<Rightarrow> handles option" where
  "scrape_acquired env cfg sc keywords w =
     (if \<not> truthy keywords then None
      else
        case getProxy env cfg w of
          (proxy, w1) \<Rightarrow>
            (case getBrowserForPlatform env (s_platform sc)
                    \<lparr>opt_proxy = proxy, opt_useExisting = Some False\<rparr> w1 of
               (Inl e, w2) \<Rightarrow> None
             | (Inr h, w2) \<Rightarrow> Some h))"

definition service_acquired ::
  "env \<Rightarrow> config \<Rightarrow> string option \<Rightarrow> string option \<Rightarrow> world \<Rightarrow> handles option" where
  "service_acquired env cfg platform keywords w =
     (if \<not> truthy platform \<or> \<not> truthy keywords then None
      else
        case getPlatformInstance (the platform) of
          Inl unsupported \<Rightarrow> None
        | Inr scrapeFunction \<Rightarrow>
            (case getProxy env cfg w of
               (proxy, w1) \<Rightarrow>
                 (case getBrowserForPlatform env (the platform)
                         \<lparr>opt_proxy = proxy, opt_useExisting = Some False\<rparr> w1 of
                    (Inl e, w2) \<Rightarrow> None
                  | (Inr h, w2) \<Rightarrow> Some h)))"

definition applyToJob_acquired :: "env \<Rightarrow> config \<Rightarrow> job \<Rightarrow> world \<Rightarrow> handles option" where
  "applyToJob_acquired env cfg job w =
     (if \<not> truthy (job_url job) then None
      else
        case job_platform_of env job of
          None \<Rightarrow> None
        | Some platform \<Rightarrow>
            (case updateJobStatus env (job_id job) ''in_progress'' w of
               (Inl e, w1) \<Rightarrow> None
             | (Inr _, w1) \<Rightarrow>
                 (case getPlatformInstance platform of
                    Inl e \<Rightarrow> None
                  | Inr platformInstance \<Rightarrow>
                      (case getProxy env cfg w1 of
                         (proxy, w2) \<Rightarrow>
                           (case getBrowserForPlatform env platform
                                   \<lparr>opt_proxy = proxy, opt_useExisting = None\<rparr> w2 of
                              (Inl e, w3) \<Rightarrow> None
                            | (Inr h, w3) \<Rightarrow> Some h)))))"

definition testPlatform_acquired :: "env \<Rightarrow> string \<Rightarrow> world \<Rightarrow> handles option" where
  "testPlatform_acquired env platformName w =
     (case getPlatformInstance platformName of
        Inl e \<Rightarrow> None
      | Inr platformInstance \<Rightarrow>
          (case getBrowserForPlatform env platformName
                  \<lparr>opt_proxy = None, opt_useExisting = Some False\<rparr> w of
             (Inl e, w1) \<Rightarrow> None
           | (Inr h, w1) \<Rightarrow> Some h))"

section \<open>Concrete configurations, environments and fixtures\<close>

definition demo_listing :: listing where
  "demo_listing =
     \<lparr>l_platform = ''indeed'', l_url = ''https://www.indeed.com/viewjob?jk=1'', l_job_id = ''1'',
      l_apply_url = ''https://www.indeed.com/apply/1'', l_title = ''Backend Engineer'',
      l_company = ''Acme''\<rparr>"

definition other_listing :: listing where
  "other_listing =
     \<lparr>l_platform = ''indeed'', l_url = ''https://www.indeed.com/viewjob?jk=2'', l_job_id = ''2'',
      l_apply_url = ''https://www.indeed.com/apply/2'', l_title = ''Data Engineer'',
      l_company = ''Initech''\<rparr>"

definition demo_row :: row where
  "demo_row =
     \<lparr>row_platform = ''indeed'', row_url = ''https://www.indeed.com/viewjob?jk=2'',
      row_job_id = Some ''2'', row_title = ''Data Engineer''\<rparr>"

definition demo_config :: config where
  "demo_config =
     \<lparr>proxy_use = True,
      proxy_list = [''http://a:1'', ''http://b:2'', ''http://c:3''],
      rotationStrategy = ''round-robin'', browser_maxRetries = 3,
      defaultDelay_min = 500, defaultDelay_max = 1500,
      platform_base = (\<lambda>p. if p = ''linkedin'' then Some ''https://www.linkedin.com''
                          else if p = ''indeed'' then Some ''https://www.indeed.com''
                          else if p = ''glassdoor'' then Some ''https://www.glassdoor.com''
                          else None)\<rparr>"

text \<open>An environment in which every call succeeds and every query answers no.\<close>

definition quiet_env :: env where
  "quiet_env =
     \<lparr>fails = (\<lambda>h c. None), store_error = (\<lambda>h c. None), answers = (\<lambda>h c. False),
      extracted = (\<lambda>h. []), random_index = (\<lambda>h n. 0), random_floor = (\<lambda>n. 0),
      url_hostname = (\<lambda>u. None), date_now = (\<lambda>h. ''0'')\<rparr>"

text \<open>An operation that throws on its first two calls and returns on the third.\<close>

definition flaky :: "nat \<Rightarrow> (string + nat) \<times> nat" where
  "flaky s = (if s < 2 then Inl ''boom'' else Inr s, Suc s)"

definition indeed_scraper :: scraper where
  "indeed_scraper = \<lparr>s_platform = ''indeed'', s_maxRetries = 3\<rparr>"

definition good_job :: job where
  "good_job =
     \<lparr>job_id = ''j2'', job_url = Some ''https://www.linkedin.com/jobs/view/2'',
      job_platform = Some ''linkedin'', job_resumeText = None, job_coverLetter = None\<rparr>"

definition failing_env :: env where
  "failing_env =
     quiet_env\<lparr>fails := (\<lambda>h c. case c of ScrapeJobs p \<Rightarrow> Some ''timeout'' | _ \<Rightarrow> None)\<rparr>"

definition once_failing_env :: env where
  "once_failing_env =
     quiet_env\<lparr>fails := (\<lambda>h c. case c of
                                  ScrapeJobs p \<Rightarrow> if ScrapeJobs p \<in> set h then None
                                                  else Some ''timeout''
                                | _ \<Rightarrow> None)\<rparr>"


text \<open>A page that shows the continue control at every step, and a five-step form.\<close>

definition stuck_fixture :: "unit fixture" where
  "stuck_fixture =
     \<lparr>elementExists = (\<lambda>p s. s = NextButton), click = (\<lambda>p s. Inr ()), fill_step = (\<lambda>p. p),
      elementText = (\<lambda>p s. None), waitForSelector = (\<lambda>p s. None),
      waitForTimeout = (\<lambda>p. None), body_text = (\<lambda>p. Inr [])\<rparr>"

definition wizard_fixture :: "nat fixture" where
  "wizard_fixture =
     \<lparr>elementExists =
        (\<lambda>p s. (p < 2 \<and> s = NextButton) \<or> (p = 2 \<and> s = ReviewButton) \<or>
               (p = 3 \<and> s = SubmitButton) \<or> (p = 4 \<and> s = SuccessFeedback)),
      click = (\<lambda>p s. Inr (Suc p)), fill_step = (\<lambda>p. p),
      elementText = (\<lambda>p s. None), waitForSelector = (\<lambda>p s. None),
      waitForTimeout = (\<lambda>p. None), body_text = (\<lambda>p. Inr [])\<rparr>"

text \<open>A step that shows the review and the submit control together.\<close>

definition both_fixture :: "unit fixture" where
  "both_fixture =
     \<lparr>elementExists = (\<lambda>p s. s = ReviewButton \<or> s = SubmitButton), click = (\<lambda>p s. Inr ()),
      fill_step = (\<lambda>p. p), elementText = (\<lambda>p s. None), waitForSelector = (\<lambda>p s. None),
      waitForTimeout = (\<lambda>p. None), body_text = (\<lambda>p. Inr [])\<rparr>"

section \<open>Proxy selector: round-robin\<close>

lemma getProxy_round_robin:
  assumes "proxy_use cfg" "proxy_list cfg \<noteq> []" "rotationStrategy cfg = ''round-robin''"
  shows "getProxy env cfg w =
     (array_get (proxy_list cfg) (currentProxyIndex w),
      w\<lparr>currentProxyIndex := (currentProxyIndex w + 1) mod length (proxy_list cfg)\<rparr>)"
  using assms by (simp add: getProxy_def getNextProxy_def)

lemma getProxy_calls_round_robin:
  assumes "proxy_use cfg" "proxy_list cfg \<noteq> []" "rotationStrategy cfg = ''round-robin''"
  shows "currentProxyIndex w < length (proxy_list cfg) \<Longrightarrow>
     getProxy_calls n env cfg w =
       (map (\<lambda>i. Some (proxy_list cfg !
                 ((currentProxyIndex w + i) mod length (proxy_list cfg)))) [0..<n],
        w\<lparr>currentProxyIndex := (currentProxyIndex w + n) mod length (proxy_list cfg)\<rparr>)"
proof (induction n arbitrary: w)
  case 0
  then show ?case by simp
next
  case (Suc n)
  let ?N = "length (proxy_list cfg)"
  let ?w1 = "w\<lparr>currentProxyIndex := (currentProxyIndex w + 1) mod ?N\<rparr>"
  have N: "0 < ?N" using assms(2) by simp
  have c1: "currentProxyIndex ?w1 < ?N" using N by simp
  have step: "getProxy env cfg w = (Some (proxy_list cfg ! currentProxyIndex w), ?w1)"
    using Suc.prems by (simp add: getProxy_round_robin [OF assms] array_get_def)
  have idx: "(Suc (currentProxyIndex w) mod ?N + i) mod ?N = Suc (currentProxyIndex w + i) mod ?N"
    for i
    by (simp add: mod_simps)
  have "map (\<lambda>i. Some (proxy_list cfg ! ((currentProxyIndex w + i) mod ?N))) [0..<Suc n]
      = Some (proxy_list cfg ! currentProxyIndex w)
        # map (\<lambda>i. Some (proxy_list cfg ! ((currentProxyIndex ?w1 + i) mod ?N))) [0..<n]"
    using Suc.prems by (simp add: upt_conv_Cons map_Suc_upt [symmetric] idx del: upt_Suc)
  moreover have "(currentProxyIndex ?w1 + n) mod ?N = (currentProxyIndex w + Suc n) mod ?N"
    using idx [of n] by simp
  ultimately show ?case
    using Suc.IH [OF c1] step by simp
qed

text \<open>
  The cursor starts at 0 and every call of the selector leaves it below the length of the
  list, so the hypothesis on the cursor in the theorem below holds in every world the
  module reaches.
\<close>

lemma getProxy_cursor_in_range:
  assumes "proxy_list cfg \<noteq> []" "currentProxyIndex w < length (proxy_list cfg)"
  shows "currentProxyIndex (snd (getProxy env cfg w)) < length (proxy_list cfg)"
  using assms by (simp add: getProxy_def getNextProxy_def getRandomProxy_def Let_def)

lemma mset_rotate_eq: "mset (rotate n xs) = mset xs"
proof -
  have "mset (drop k xs @ take k xs) = mset (take k xs @ drop k xs)" for k
    by (simp only: mset_append add.commute)
  then show ?thesis by (simp add: rotate_drop_take)
qed

text \<open>
  Claim C9.  With proxies enabled, a non-empty list of \<open>N\<close> endpoints and the round-robin
  strategy, \<open>N\<close> consecutive calls of the selector return the list rotated to the cursor:
  every configured endpoint once, in list order (cyclically), and the world is the one
  before the calls; each single call moves the cursor to its successor modulo \<open>N\<close>.
\<close>

theorem round_robin_cycle:
  assumes "proxy_use cfg" "proxy_list cfg \<noteq> []" "rotationStrategy cfg = ''round-robin''"
    and "currentProxyIndex w < length (proxy_list cfg)"
  shows "getProxy_calls (length (proxy_list cfg)) env cfg w =
           (map Some (rotate (currentProxyIndex w) (proxy_list cfg)), w)
       \<and> mset (rotate (currentProxyIndex w) (proxy_list cfg)) = mset (proxy_list cfg)
       \<and> currentProxyIndex (snd (getProxy env cfg w)) =
           (currentProxyIndex w + 1) mod length (proxy_list cfg)"
proof -
  let ?xs = "proxy_list cfg"
  let ?N = "length ?xs"
  let ?c = "currentProxyIndex w"
  have "map (\<lambda>i. Some (?xs ! ((?c + i) mod ?N))) [0..<?N] = map Some (rotate ?c ?xs)"
    by (rule nth_equalityI) (simp_all add: nth_rotate)
  moreover have "w\<lparr>currentProxyIndex := (?c + ?N) mod ?N\<rparr> = w"
    using assms(4) by simp
  ultimately have "getProxy_calls ?N env cfg w = (map Some (rotate ?c ?xs), w)"
    using getProxy_calls_round_robin [OF assms(1-3) assms(4), of ?N env] by simp
  then show ?thesis
    by (simp add: getProxy_round_robin [OF assms(1-3)] mset_rotate_eq)
qed

theorem round_robin_cycle_witness:
  "getProxy_calls 3 quiet_env demo_config ((initial_world [])\<lparr>currentProxyIndex := 1\<rparr>) =
     ([Some ''http://b:2'', Some ''http://c:3'', Some ''http://a:1''],
      (initial_world [])\<lparr>currentProxyIndex := 1\<rparr>)
   \<and> currentProxyIndex
        (snd (getProxy quiet_env demo_config ((initial_world [])\<lparr>currentProxyIndex := 1\<rparr>))) = 2"
proof -
  let ?w = "(initial_world [])\<lparr>currentProxyIndex := 1\<rparr>"
  have a: "proxy_use demo_config" "proxy_list demo_config \<noteq> []"
    "rotationStrategy demo_config = ''round-robin''"
    "currentProxyIndex ?w < length (proxy_list demo_config)"
    by (simp_all add: demo_config_def)
  have n: "length (proxy_list demo_config) = 3"
    by (simp add: demo_config_def)
  have r: "rotate (currentProxyIndex ?w) (proxy_list demo_config) =
      [''http://b:2'', ''http://c:3'', ''http://a:1'']"
    by (simp add: demo_config_def)
  from round_robin_cycle [OF a, of quiet_env] show ?thesis
    unfolding n by (simp add: r [simplified])
qed

section \<open>Retry policy\<close>

lemma withRetry_loop_logged:
  "attempt \<le> retries \<Longrightarrow> k = nat (retries - attempt) \<Longrightarrow>
   withRetry_loop env (logged fn) retries lo hi no_hook attempt lastError (s, log)
     = (r, (s', log')) \<Longrightarrow>
    (\<exists>new. log' = log @ new \<and> new \<noteq> [] \<and> int (length new) \<le> retries + 1 - attempt
       \<and> (\<forall>x \<in> set (butlast new). isl x)
       \<and> (case last new of Inr v \<Rightarrow> r = Inr v
           | Inl e \<Rightarrow> r = Inl (Some e) \<and> int (length new) = retries + 1 - attempt))"
proof (induction k arbitrary: attempt lastError s log)
  case 0
  then have eq: "attempt = retries" by simp
  obtain o1 s1 where f: "fn s = (o1, s1)" by (cases "fn s")
  show ?case
  proof (cases o1)
    case (Inr v)
    then show ?thesis using 0(3) eq f
      by (subst (asm) withRetry_loop.simps) (auto simp: logged_def)
  next
    case (Inl e)
    have "withRetry_loop env (logged fn) retries lo hi no_hook (retries + 1) (Some e)
            (s1, log @ [Inl e]) = (r, (s', log'))"
      using 0(3) eq f Inl by (subst (asm) withRetry_loop.simps) (simp add: logged_def)
    then have "r = Inl (Some e) \<and> s' = s1 \<and> log' = log @ [Inl e]"
      by (subst (asm) withRetry_loop.simps) simp
    then show ?thesis using eq by simp
  qed
next
  case (Suc k)
  then have lt: "attempt < retries" by simp
  obtain o1 s1 where f: "fn s = (o1, s1)" by (cases "fn s")
  show ?case
  proof (cases o1)
    case (Inr v)
    then show ?thesis using Suc(4) lt f
      by (subst (asm) withRetry_loop.simps) (auto simp: logged_def)
  next
    case (Inl e)
    have rec: "withRetry_loop env (logged fn) retries lo hi no_hook (attempt + 1) (Some e)
                 (s1, log @ [Inl e]) = (r, (s', log'))"
      using Suc(4) lt f Inl
      by (subst (asm) withRetry_loop.simps) (simp add: logged_def no_hook_def)
    have "attempt + 1 \<le> retries" "k = nat (retries - (attempt + 1))"
      using lt Suc(3) by simp_all
    from Suc.IH [OF this rec] obtain new where
      n: "log' = (log @ [Inl e]) @ new" "new \<noteq> []"
         "int (length new) \<le> retries + 1 - (attempt + 1)"
         "\<forall>x \<in> set (butlast new). isl x"
         "case last new of Inr v \<Rightarrow> r = Inr v
           | Inl e \<Rightarrow> r = Inl (Some e) \<and> int (length new) = retries + 1 - (attempt + 1)"
      by blast
    let ?new = "Inl e # new"
    have "log' = log @ ?new" using n(1) by simp
    moreover have "int (length ?new) \<le> retries + 1 - attempt" using n(3) by simp
    moreover have "\<forall>x \<in> set (butlast ?new). isl x" using n(2,4) by simp
    moreover have "case last ?new of Inr v \<Rightarrow> r = Inr v
           | Inl e \<Rightarrow> r = Inl (Some e) \<and> int (length ?new) = retries + 1 - attempt"
      using n(2,5) by (auto split: sum.splits)
    ultimately show ?thesis by blast
  qed
qed

text \<open>With a negative \<open>retries\<close> the loop body never runs and \<open>undefined\<close> is thrown.\<close>

lemma withRetry_negative_retries:
  "retries < 0 \<Longrightarrow>
   withRetry env cfg (logged fn)
     \<lparr>opt_retries = Some retries, opt_minDelay = lo, opt_maxDelay = hi, opt_onRetry = None\<rparr>
     (s, [])
   = (Inl None, (s, []))"
  by (simp add: withRetry_def default_to_def withRetry_loop.simps)

text \<open>
  Claim C5.  For every operation and options \<open>{retries, minDelay, maxDelay}\<close> with a retry
  count \<open>retries \<ge> 0\<close>, \<open>withRetry\<close> returns, having made at least one and at most
  \<open>retries + 1\<close> attempts; every attempt but the last failed; when the last attempt
  succeeded its value is returned, and when it failed all \<open>retries + 1\<close> attempts were made
  and its error is thrown.
\<close>

theorem withRetry_attempts:
  assumes "0 \<le> retries"
  shows "case withRetry env cfg (logged fn)
               \<lparr>opt_retries = Some retries, opt_minDelay = lo, opt_maxDelay = hi,
                opt_onRetry = None\<rparr> (s, []) of
           (r, (s', log)) \<Rightarrow>
             log \<noteq> [] \<and> int (length log) \<le> retries + 1 \<and>
             (\<forall>x \<in> set (butlast log). isl x) \<and>
             (case last log of
                Inr v \<Rightarrow> r = Inr v
              | Inl e \<Rightarrow> r = Inl (Some e) \<and> int (length log) = retries + 1)"
proof -
  let ?run = "withRetry_loop env (logged fn) retries
      (default_to (defaultDelay_min cfg) lo) (default_to (defaultDelay_max cfg) hi)
      no_hook 0 None (s, [])"
  obtain r s' log where run: "?run = (r, (s', log))" by (cases ?run) auto
  from withRetry_loop_logged [OF assms refl run]
  have "log \<noteq> [] \<and> int (length log) \<le> retries + 1 \<and>
        (\<forall>x \<in> set (butlast log). isl x) \<and>
        (case last log of Inr v \<Rightarrow> r = Inr v
         | Inl e \<Rightarrow> r = Inl (Some e) \<and> int (length log) = retries + 1)"
    by (auto split: sum.splits)
  then show ?thesis
    using run by (simp add: withRetry_def default_to_def)
qed

theorem withRetry_attempts_witness:
  "withRetry quiet_env demo_config (logged flaky)
     \<lparr>opt_retries = Some 2, opt_minDelay = None, opt_maxDelay = None, opt_onRetry = None\<rparr>
     (0, [])
   = (Inr 2, (3, [Inl ''boom'', Inl ''boom'', Inr 2]))"
  using withRetry_attempts [of 2 quiet_env demo_config flaky None None 0]
  by (simp add: withRetry_def default_to_def Let_def logged_def flaky_def no_hook_def
      withRetry_loop.simps)

section \<open>Scraping pipeline: counts of a save\<close>

lemma select_jobs_ok:
  assumes "fails env (events w) c = None" "store_error env (events w) c = None"
  shows "select_jobs env c m w = (Data (take 1 (filter m (jobs_table w))), w\<lparr>events := events w @ [c]\<rparr>)"
  using assms by (simp add: select_jobs_def perform_def)

lemma insert_job_ok:
  assumes "fails env (events w) c = None" "store_error env (events w) c = None"
  shows "insert_job env c r w =
     (Data (), w\<lparr>events := events w @ [c], jobs_table := jobs_table w @ [r]\<rparr>)"
  using assms by (simp add: insert_job_def perform_def)

lemma base_save_loop_counts:
  assumes nf: "\<And>h c. fails env h c = None" "\<And>h c. store_error env h c = None"
  shows "distinct (map l_url js) \<Longrightarrow> base_save_loop env P js st w = (st', w') \<Longrightarrow>
     total st' = total st \<and>
     duplicates st' = duplicates st + length (filter (\<lambda>j. known_url (jobs_table w) P (l_url j)) js) \<and>
     newJobs st' = newJobs st + length (filter (\<lambda>j. \<not> known_url (jobs_table w) P (l_url j)) js)"
proof (induction js arbitrary: st w)
  case Nil
  then show ?case by simp
next
  case (Cons j js)
  let ?m = "\<lambda>r. row_platform r = P \<and> row_url r = l_url j"
  let ?w1 = "w\<lparr>events := events w @ [SelectJob P (l_url j)]\<rparr>"
  have d: "distinct (map l_url js)" "l_url j \<notin> l_url ` set js" using Cons.prems(1) by simp_all
  show ?case
  proof (cases "known_url (jobs_table w) P (l_url j)")
    case True
    then have "base_save_loop env P js (st\<lparr>duplicates := duplicates st + 1\<rparr>) ?w1 = (st', w')"
      using Cons.prems(2) by (simp add: select_jobs_ok nf known_url_def)
    from Cons.IH [OF d(1) this] True show ?thesis by simp
  next
    case False
    let ?r = "\<lparr>row_platform = P, row_url = l_url j, row_job_id = None, row_title = l_title j\<rparr>"
    let ?w2 = "?w1\<lparr>events := events ?w1 @ [InsertJob P (l_url j)], jobs_table := jobs_table ?w1 @ [?r]\<rparr>"
    have run: "base_save_loop env P js (count_new j st) ?w2 = (st', w')"
      using Cons.prems(2) False by (simp add: select_jobs_ok insert_job_ok nf known_url_def)
    have tbl: "jobs_table ?w2 = jobs_table w @ [?r]" by simp
    have same: "known_url (jobs_table w @ [?r]) P (l_url j') = known_url (jobs_table w) P (l_url j')"
      if "j' \<in> set js" for j'
      using that d(2) by (auto simp: known_url_def)
    have f1: "filter (\<lambda>j. known_url (jobs_table ?w2) P (l_url j)) js
            = filter (\<lambda>j. known_url (jobs_table w) P (l_url j)) js"
      unfolding tbl by (rule filter_cong) (simp_all add: same)
    have f2: "filter (\<lambda>j. \<not> known_url (jobs_table ?w2) P (l_url j)) js
            = filter (\<lambda>j. \<not> known_url (jobs_table w) P (l_url j)) js"
      unfolding tbl by (rule filter_cong) (simp_all add: same)
    from Cons.IH [OF d(1) run] False show ?thesis
      unfolding f1 f2 by (simp add: count_new_def)
  qed
qed


lemma service_save_loop_counts:
  assumes nf: "\<And>h c. fails env h c = None" "\<And>h c. store_error env h c = None"
  shows "distinct (map (\<lambda>j. (l_platform j, l_job_id j)) js) \<Longrightarrow>
     service_save_loop env js st w = (r, w') \<Longrightarrow>
     (\<exists>st'. r = Inr st' \<and> total st' = total st \<and>
        duplicates st' = duplicates st +
          length (filter (\<lambda>j. known_job_id (jobs_table w) (l_platform j) (l_job_id j)) js) \<and>
        newJobs st' = newJobs st +
          length (filter (\<lambda>j. \<not> known_job_id (jobs_table w) (l_platform j) (l_job_id j)) js))"
proof (induction js arbitrary: st w)
  case Nil
  then show ?case by auto
next
  case (Cons j js)
  let ?c = "SelectJob (l_platform j) (l_job_id j)"
  let ?w1 = "w\<lparr>events := events w @ [?c]\<rparr>"
  have d: "distinct (map (\<lambda>j. (l_platform j, l_job_id j)) js)"
    "(l_platform j, l_job_id j) \<notin> (\<lambda>j. (l_platform j, l_job_id j)) ` set js"
    using Cons.prems(1) by simp_all
  show ?case
  proof (cases "known_job_id (jobs_table w) (l_platform j) (l_job_id j)")
    case True
    then have "service_save_loop env js (st\<lparr>duplicates := duplicates st + 1\<rparr>) ?w1 = (r, w')"
      using Cons.prems(2) by (simp add: select_jobs_ok nf known_job_id_def)
    from Cons.IH [OF d(1) this] True show ?thesis by auto
  next
    case False
    let ?r = "\<lparr>row_platform = l_platform j, row_url = l_apply_url j,
               row_job_id = Some (l_job_id j), row_title = l_title j\<rparr>"
    let ?w2 = "?w1\<lparr>events := events ?w1 @ [InsertJob (l_platform j) (l_job_id j)],
                   jobs_table := jobs_table ?w1 @ [?r]\<rparr>"
    have run: "service_save_loop env js (count_new j st) ?w2 = (r, w')"
      using Cons.prems(2) False by (simp add: select_jobs_ok insert_job_ok nf known_job_id_def)
    have tbl: "jobs_table ?w2 = jobs_table w @ [?r]" by simp
    have same: "known_job_id (jobs_table w @ [?r]) (l_platform j') (l_job_id j')
              = known_job_id (jobs_table w) (l_platform j') (l_job_id j')"
      if "j' \<in> set js" for j'
      using that d(2) by (auto simp: known_job_id_def)
    have f1: "filter (\<lambda>j. known_job_id (jobs_table ?w2) (l_platform j) (l_job_id j)) js
            = filter (\<lambda>j. known_job_id (jobs_table w) (l_platform j) (l_job_id j)) js"
      unfolding tbl by (rule filter_cong) (simp_all add: same)
    have f2: "filter (\<lambda>j. \<not> known_job_id (jobs_table ?w2) (l_platform j) (l_job_id j)) js
            = filter (\<lambda>j. \<not> known_job_id (jobs_table w) (l_platform j) (l_job_id j)) js"
      unfolding tbl by (rule filter_cong) (simp_all add: same)
    from Cons.IH [OF d(1) run] False show ?thesis
      unfolding f1 f2 by (auto simp: count_new_def)
  qed
qed

lemma new_is_rest: "length (filter (\<lambda>x. \<not> P x) xs) = length xs - length (filter P xs)"
  using sum_length_filter_compl [of P xs] by simp

text \<open>
  Claim C1, amended.  When no store call fails and the \<open>K\<close> extracted listings have
  pairwise distinct keys (urls for the base scraper, platform and job id for the
  scraping service), of which \<open>D\<close> are in the table before the run, saving returns the
  counts \<open>total = K\<close>, \<open>duplicates = D\<close> and \<open>newJobs = K - D\<close>, which the scrape result
  carries unchanged.
\<close>

theorem save_counts_distinct:
  assumes "\<And>h c. fails env h c = None" "\<And>h c. store_error env h c = None"
  shows "(distinct (map l_url jobs) \<longrightarrow>
            (case base_saveJobsToDatabase env platform jobs w of
               (r, w') \<Rightarrow>
                 (\<exists>stats. r = Inr stats \<and>
                    sr_totalJobs (scrape_result_of platform stats) = length jobs \<and>
                    sr_duplicates (scrape_result_of platform stats) =
                      length (filter (\<lambda>j. known_url (jobs_table w) platform (l_url j)) jobs) \<and>
                    sr_newJobs (scrape_result_of platform stats) =
                      length jobs -
                      length (filter (\<lambda>j. known_url (jobs_table w) platform (l_url j)) jobs))))
       \<and> (distinct (map (\<lambda>j. (l_platform j, l_job_id j)) jobs) \<longrightarrow>
            (case service_saveJobsToDatabase env jobs w of
               (r, w') \<Rightarrow>
                 (\<exists>stats. r = Inr stats \<and>
                    sr_totalJobs (scrape_result_of platform stats) = length jobs \<and>
                    sr_duplicates (scrape_result_of platform stats) =
                      length (filter (\<lambda>j. known_job_id (jobs_table w) (l_platform j) (l_job_id j))
                                jobs) \<and>
                    sr_newJobs (scrape_result_of platform stats) =
                      length jobs -
                      length (filter (\<lambda>j. known_job_id (jobs_table w) (l_platform j) (l_job_id j))
                                jobs))))"
proof (intro conjI impI)
  assume d: "distinct (map l_url jobs)"
  let ?st = "\<lparr>total = length jobs, newJobs = 0, duplicates = 0, sampleTitles = []\<rparr>"
  obtain st' w' where run: "base_save_loop env platform jobs ?st w = (st', w')"
    by (cases "base_save_loop env platform jobs ?st w")
  from base_save_loop_counts [OF assms d run]
  have c: "total st' = length jobs"
    "duplicates st' = length (filter (\<lambda>j. known_url (jobs_table w) platform (l_url j)) jobs)"
    "newJobs st' = length jobs
       - length (filter (\<lambda>j. known_url (jobs_table w) platform (l_url j)) jobs)"
    by (simp_all add: new_is_rest)
  show "case base_saveJobsToDatabase env platform jobs w of
               (r, w') \<Rightarrow>
                 (\<exists>stats. r = Inr stats \<and>
                    sr_totalJobs (scrape_result_of platform stats) = length jobs \<and>
                    sr_duplicates (scrape_result_of platform stats) =
                      length (filter (\<lambda>j. known_url (jobs_table w) platform (l_url j)) jobs) \<and>
                    sr_newJobs (scrape_result_of platform stats) =
                      length jobs -
                      length (filter (\<lambda>j. known_url (jobs_table w) platform (l_url j)) jobs))"
  proof (cases "jobs = []")
    case True
    then show ?thesis by (simp add: base_saveJobsToDatabase_def scrape_result_of_def)
  next
    case False
    then show ?thesis
      using run c by (simp add: base_saveJobsToDatabase_def scrape_result_of_def)
  qed
next
  assume d: "distinct (map (\<lambda>j. (l_platform j, l_job_id j)) jobs)"
  let ?st = "\<lparr>total = length jobs, newJobs = 0, duplicates = 0, sampleTitles = []\<rparr>"
  obtain r w' where run: "service_save_loop env jobs ?st w = (r, w')"
    by (cases "service_save_loop env jobs ?st w")
  from service_save_loop_counts [OF assms d run]
  show "case service_saveJobsToDatabase env jobs w of
               (r, w') \<Rightarrow>
                 (\<exists>stats. r = Inr stats \<and>
                    sr_totalJobs (scrape_result_of platform stats) = length jobs \<and>
                    sr_duplicates (scrape_result_of platform stats) =
                      length (filter (\<lambda>j. known_job_id (jobs_table w) (l_platform j) (l_job_id j))
                                jobs) \<and>
                    sr_newJobs (scrape_result_of platform stats) =
                      length jobs -
                      length (filter (\<lambda>j. known_job_id (jobs_table w) (l_platform j) (l_job_id j))
                                jobs))"
    using run by (auto simp: service_saveJobsToDatabase_def scrape_result_of_def new_is_rest)
qed

lemma quiet_env_simps [simp]:
  "fails quiet_env h c = None" "store_error quiet_env h c = None"
  "answers quiet_env h c = False" "extracted quiet_env h = []"
  by (simp_all add: quiet_env_def)

theorem save_counts_distinct_witness:
  "fst (base_saveJobsToDatabase quiet_env ''indeed'' [demo_listing, other_listing]
          (initial_world [demo_row]))
     = Inr \<lparr>total = 2, newJobs = 1, duplicates = 1, sampleTitles = [''Backend Engineer at Acme'']\<rparr>
   \<and> length (filter (\<lambda>j. known_url [demo_row] ''indeed'' (l_url j))
               [demo_listing, other_listing]) = 1"
  using save_counts_distinct [of quiet_env "[demo_listing, other_listing]" "''indeed''"
      "initial_world [demo_row]"]
  by (simp add: base_saveJobsToDatabase_def select_jobs_def insert_job_def perform_def
      count_new_def known_url_def demo_listing_def other_listing_def demo_row_def
      initial_world_def)

text \<open>
  Without distinct keys the claim fails: the same listing extracted twice, absent from the
  table, is inserted once and counted as a duplicate once, although \<open>D = 0\<close>.
\<close>

theorem save_counts_counterexample:
  "length (filter (\<lambda>j. known_url (jobs_table (initial_world [])) ''indeed'' (l_url j))
             [demo_listing, demo_listing]) = 0
   \<and> fst (base_saveJobsToDatabase quiet_env ''indeed'' [demo_listing, demo_listing]
            (initial_world []))
     = Inr \<lparr>total = 2, newJobs = 1, duplicates = 1, sampleTitles = [''Backend Engineer at Acme'']\<rparr>"
  by (simp add: base_saveJobsToDatabase_def select_jobs_def insert_job_def perform_def
      count_new_def known_url_def demo_listing_def initial_world_def)

section \<open>What each call adds to the trace\<close>

lemma only_adds_refl [simp]: "only_adds S w w"
  by (simp add: only_adds_def)

lemma only_adds_same_events: "events w' = events w \<Longrightarrow> only_adds S w w'"
  by (simp add: only_adds_def)

lemma closes_append [simp]: "closes (xs @ ys) = closes xs @ closes ys"
  by (simp add: closes_def)

lemma closes_none: "list_all (\<lambda>e. kind e \<in> S) xs \<Longrightarrow> Closing \<notin> S \<Longrightarrow> closes xs = []"
  by (auto simp: closes_def filter_empty_conv list_all_iff)

lemma only_adds_closes:
  "only_adds S w w' \<Longrightarrow> Closing \<notin> S \<Longrightarrow> closes (events w') = closes (events w)"
  by (auto simp: only_adds_def closes_none)

lemma perform_adds: "perform env c w = (r, w') \<Longrightarrow> kind c \<in> S \<Longrightarrow> only_adds S w w'"
  by (auto simp: only_adds_def perform_def)

lemma getProxy_events: "getProxy env cfg w = (p, w') \<Longrightarrow> events w' = events w"
  by (auto simp: getProxy_def getNextProxy_def getRandomProxy_def Let_def split: if_splits)

lemma newContext_adds: "newContext env b w = (r, w') \<Longrightarrow> only_adds {Acquiring} w w'"
  by (auto simp: newContext_def perform_def fresh_handle_def only_adds_def split: option.splits)

lemma newPage_adds: "newPage env c w = (r, w') \<Longrightarrow> only_adds {Acquiring} w w'"
  by (auto simp: newPage_def perform_def fresh_handle_def only_adds_def split: option.splits)

lemma chromium_launch_adds:
  "chromium_launch env k p w = (r, w') \<Longrightarrow> only_adds {Acquiring} w w'"
  by (auto simp: chromium_launch_def perform_def fresh_handle_def only_adds_def
      split: option.splits)

lemma setDefaultTimeouts_adds:
  "setDefaultTimeouts env p w = (r, w') \<Longrightarrow> only_adds {Acquiring} w w'"
  by (auto simp: setDefaultTimeouts_def perform_def only_adds_def split: option.splits)

lemma restoreCookies_events:
  "events (restoreCookies env c w) =
     events w @ (if answers env (events w) (AddCookies c) then [AddCookies c] else [])"
  by (simp add: restoreCookies_def perform_def)

lemmas acquire_parts =
  chromium_launch_adds [unfolded only_adds_def] newContext_adds [unfolded only_adds_def]
  newPage_adds [unfolded only_adds_def] setDefaultTimeouts_adds [unfolded only_adds_def]

lemma create_browser_adds:
  "create_browser env k p w = (r, w') \<Longrightarrow> only_adds {Acquiring} w w'"
  unfolding create_browser_def only_adds_def
  by (auto split: prod.splits sum.splits simp: restoreCookies_events dest!: acquire_parts)

lemma getBrowserForPlatform_adds:
  "getBrowserForPlatform env platform opts w = (r, w') \<Longrightarrow> only_adds {Acquiring} w w'"
  unfolding getBrowserForPlatform_def Let_def only_adds_def
  by (auto split: prod.splits sum.splits option.splits if_splits
      dest!: create_browser_adds [unfolded only_adds_def] acquire_parts)

lemma takeScreenshot_throws:
  "takeScreenshot env p n w = (r, w') \<Longrightarrow> w' = w \<and> (\<exists>e. r = Inl e)"
  by (auto simp: takeScreenshot_def)

lemma takeScreenshot_adds: "takeScreenshot env p n w = (r, w') \<Longrightarrow> only_adds {PageUse} w w'"
  by (auto simp: takeScreenshot_def only_adds_def)

lemma page_goto_adds: "page_goto env p u w = (r, w') \<Longrightarrow> only_adds {PageUse} w w'"
  by (auto simp: page_goto_def perform_def only_adds_def split: option.splits)

lemma page_waitForTimeout_adds:
  "page_waitForTimeout env p w = (r, w') \<Longrightarrow> only_adds {PageUse} w w'"
  by (auto simp: page_waitForTimeout_def perform_def only_adds_def split: option.splits)

lemma adapter_checkLogin_adds:
  "adapter_checkLogin env k p w = (r, w') \<Longrightarrow> only_adds {PageUse} w w'"
  by (auto simp: adapter_checkLogin_def perform_def only_adds_def split: option.splits)

lemma adapter_login_adds: "adapter_login env k p w = (r, w') \<Longrightarrow> only_adds {PageUse} w w'"
  by (auto simp: adapter_login_def perform_def only_adds_def split: option.splits)

lemma adapter_applyToJob_adds:
  "adapter_applyToJob env k p w = (r, w') \<Longrightarrow> only_adds {PageUse} w w'"
  by (auto simp: adapter_applyToJob_def perform_def only_adds_def split: option.splits)

lemma scraper_scrapeJobs_adds:
  "scraper_scrapeJobs env p w = (r, w') \<Longrightarrow> only_adds {PageUse} w w'"
  by (auto simp: scraper_scrapeJobs_def perform_def only_adds_def split: option.splits)

lemma store_failure_adds:
  "store_failure env c w = (r, w') \<Longrightarrow> kind c = Store \<Longrightarrow> only_adds {Store} w w'"
  by (auto simp: store_failure_def perform_def only_adds_def split: option.splits)

lemma updateJobStatus_adds: "updateJobStatus env j s w = (r, w') \<Longrightarrow> only_adds {Store} w w'"
  by (auto simp: updateJobStatus_def split: prod.splits option.splits
      dest!: store_failure_adds)

lemma createApplication_adds:
  "createApplication env j s w = (r, w') \<Longrightarrow> only_adds {Store} w w'"
  by (auto simp: createApplication_def only_adds_def)

lemma updateApplicationStats_adds:
  "updateApplicationStats env p s w = (r, w') \<Longrightarrow> only_adds {Store} w w'"
  by (auto simp: updateApplicationStats_def only_adds_def)

lemma sendWebhookNotification_adds:
  "sendWebhookNotification env k w = (r, w') \<Longrightarrow> only_adds {Notify} w w'"
  by (auto simp: sendWebhookNotification_def perform_def only_adds_def split: option.splits)

lemma telegram_sendMessage_adds:
  "telegram_sendMessage env k w = (r, w') \<Longrightarrow> only_adds {Notify} w w'"
  by (auto simp: telegram_sendMessage_def perform_def only_adds_def split: option.splits)

lemmas notify_parts =
  sendWebhookNotification_adds [unfolded only_adds_def]
  telegram_sendMessage_adds [unfolded only_adds_def]

lemma notifyError_adds: "notifyError env k w = (r, w') \<Longrightarrow> only_adds {Notify} w w'"
  unfolding notifyError_def only_adds_def
  by (auto split: prod.splits dest!: notify_parts)

lemma notifyApplicationResults_adds:
  "notifyApplicationResults env w = (r, w') \<Longrightarrow> only_adds {Notify} w w'"
  unfolding notifyApplicationResults_def only_adds_def
  by (auto split: prod.splits dest!: notify_parts)

lemma select_jobs_adds:
  "select_jobs env c m w = (r, w') \<Longrightarrow> kind c = Store \<Longrightarrow> only_adds {Store} w w'"
  by (auto simp: select_jobs_def perform_def only_adds_def split: option.splits)

lemma insert_job_adds:
  "insert_job env c x w = (r, w') \<Longrightarrow> kind c = Store \<Longrightarrow> only_adds {Store} w w'"
  by (auto simp: insert_job_def perform_def only_adds_def split: option.splits)

lemma only_adds_trans: "only_adds S w w1 \<Longrightarrow> only_adds S w1 w2 \<Longrightarrow> only_adds S w w2"
  by (auto simp: only_adds_def)

lemma only_adds_mono: "only_adds S w w' \<Longrightarrow> S \<subseteq> T \<Longrightarrow> only_adds T w w'"
  by (auto simp: only_adds_def list_all_iff)

lemma base_save_loop_adds:
  "base_save_loop env P js st w = (st', w') \<Longrightarrow> only_adds {Store} w w'"
proof (induction js arbitrary: st w)
  case Nil
  then show ?case by simp
next
  case (Cons j js)
  obtain r1 w1 where s: "select_jobs env (SelectJob P (l_url j))
      (\<lambda>r. row_platform r = P \<and> row_url r = l_url j) w = (r1, w1)"
    by (cases "select_jobs env (SelectJob P (l_url j))
      (\<lambda>r. row_platform r = P \<and> row_url r = l_url j) w")
  have a1: "only_adds {Store} w w1" using select_jobs_adds [OF s] by simp
  obtain r2 w2 where i: "insert_job env (InsertJob P (l_url j))
      \<lparr>row_platform = P, row_url = l_url j, row_job_id = None, row_title = l_title j\<rparr> w1
      = (r2, w2)"
    by (cases "insert_job env (InsertJob P (l_url j))
      \<lparr>row_platform = P, row_url = l_url j, row_job_id = None, row_title = l_title j\<rparr> w1")
  have a2: "only_adds {Store} w w2"
    using only_adds_trans [OF a1 insert_job_adds [OF i]] by simp
  from Cons.prems s i show ?case
    by (auto split: store_reply.splits if_splits
        dest!: Cons.IH intro: only_adds_trans [OF a1] only_adds_trans [OF a2])
qed

lemma base_saveJobsToDatabase_adds:
  "base_saveJobsToDatabase env P js w = (r, w') \<Longrightarrow> only_adds {Store} w w'"
  by (auto simp: base_saveJobsToDatabase_def Let_def split: if_splits prod.splits
      dest!: base_save_loop_adds)

lemma service_save_loop_adds:
  "service_save_loop env js st w = (r, w') \<Longrightarrow> only_adds {Store} w w'"
proof (induction js arbitrary: st w)
  case Nil
  then show ?case by simp
next
  case (Cons j js)
  obtain r1 w1 where s: "select_jobs env (SelectJob (l_platform j) (l_job_id j))
      (\<lambda>r. row_platform r = l_platform j \<and> row_job_id r = Some (l_job_id j)) w = (r1, w1)"
    by (cases "select_jobs env (SelectJob (l_platform j) (l_job_id j))
      (\<lambda>r. row_platform r = l_platform j \<and> row_job_id r = Some (l_job_id j)) w")
  have a1: "only_adds {Store} w w1" using select_jobs_adds [OF s] by simp
  obtain r2 w2 where i: "insert_job env (InsertJob (l_platform j) (l_job_id j))
      \<lparr>row_platform = l_platform j, row_url = l_apply_url j,
       row_job_id = Some (l_job_id j), row_title = l_title j\<rparr> w1 = (r2, w2)"
    by (cases "insert_job env (InsertJob (l_platform j) (l_job_id j))
      \<lparr>row_platform = l_platform j, row_url = l_apply_url j,
       row_job_id = Some (l_job_id j), row_title = l_title j\<rparr> w1")
  have a2: "only_adds {Store} w w2"
    using only_adds_trans [OF a1 insert_job_adds [OF i]] by simp
  from Cons.prems s i show ?case
    using a1 a2
    by (auto split: store_reply.splits if_splits
        dest!: Cons.IH intro: only_adds_trans [OF a1] only_adds_trans [OF a2])
qed

lemma service_saveJobsToDatabase_adds:
  "service_saveJobsToDatabase env js w = (r, w') \<Longrightarrow> only_adds {Store} w w'"
  by (auto simp: service_saveJobsToDatabase_def dest!: service_save_loop_adds)

lemma attempt_pages_append [simp]:
  "attempt_pages (xs @ ys) = attempt_pages xs @ attempt_pages ys"
  by (simp add: attempt_pages_def)

lemma attempt_pages_simps [simp]:
  "attempt_pages [] = []"
  "attempt_pages (e # es) =
     (case e of ScrapeJobs p \<Rightarrow> p # attempt_pages es | _ \<Rightarrow> attempt_pages es)"
  by (simp_all add: attempt_pages_def split: event.splits)

lemma page_openings_append [simp]:
  "page_openings (xs @ ys) = page_openings xs @ page_openings ys"
  by (simp add: page_openings_def)

lemma attempt_pages_none:
  "list_all (\<lambda>e. kind e \<in> S) xs \<Longrightarrow> PageUse \<notin> S \<Longrightarrow> attempt_pages xs = []"
  by (induction xs) (auto simp: attempt_pages_def split: event.splits)

lemma page_openings_none:
  "list_all (\<lambda>e. kind e \<in> S) xs \<Longrightarrow> Acquiring \<notin> S \<Longrightarrow> page_openings xs = []"
  by (induction xs) (auto simp: page_openings_def split: event.splits)

lemma only_adds_attempt_pages:
  "only_adds S w w' \<Longrightarrow> PageUse \<notin> S \<Longrightarrow> attempt_pages (events w') = attempt_pages (events w)"
  by (auto simp: only_adds_def attempt_pages_none)

lemma only_adds_page_openings:
  "only_adds S w w' \<Longrightarrow> Acquiring \<notin> S \<Longrightarrow> page_openings (events w') = page_openings (events w)"
  by (auto simp: only_adds_def page_openings_none)

text \<open>The retry loop: what it adds to the trace.\<close>

lemma scrape_attempts_trace:
  "scrape_attempts env sc page k jobs w = (r, w') \<Longrightarrow>
     (\<exists>xs n. events w' = events w @ xs
        \<and> list_all (\<lambda>e. e = ScrapeJobs page \<or> e = WaitForTimeout page) xs
        \<and> attempt_pages xs = replicate n page \<and> n \<le> s_maxRetries sc - k
        \<and> ((\<exists>e. r = Inl e) \<and> (\<forall>h. fails env h (WaitForTimeout page) = None)
              \<longrightarrow> n = s_maxRetries sc - k \<and> 0 < n))"
proof (induction env sc page k jobs w arbitrary: r w' rule: scrape_attempts.induct)
  case (1 env sc page retryCount jobs w)
  show ?case
  proof (cases "retryCount < s_maxRetries sc")
    case False
    then have "r = Inr jobs" "w' = w"
      using "1.prems" by (simp_all add: scrape_attempts.simps)
    then show ?thesis by (intro exI [of _ "[]"] exI [of _ 0]) simp
  next
    case True
    let ?w1 = "w\<lparr>events := events w @ [ScrapeJobs page]\<rparr>"
    show ?thesis
    proof (cases "fails env (events w) (ScrapeJobs page)")
      case None
      then have "w' = ?w1" "\<exists>v. r = Inr v"
        using "1.prems" True
        by (auto simp: scrape_attempts.simps [of env sc page retryCount]
            scraper_scrapeJobs_def perform_def)
      then show ?thesis
        using True by (intro exI [of _ "[ScrapeJobs page]"] exI [of _ 1]) auto
    next
      case (Some msg)
      then have s: "scraper_scrapeJobs env page w = (Inl (JsError Error msg), ?w1)"
        by (simp add: scraper_scrapeJobs_def perform_def)
      show ?thesis
      proof (cases "retryCount + 1 \<ge> s_maxRetries sc")
        case last: True
        then have "w' = ?w1" "r = Inl (JsError Error msg)"
          using "1.prems" True s by (simp_all add: scrape_attempts.simps [of env sc page retryCount])
        moreover have "s_maxRetries sc - retryCount = 1" using True last by simp
        ultimately show ?thesis
          by (intro exI [of _ "[ScrapeJobs page]"] exI [of _ 1]) simp
      next
        case more: False
        let ?w2 = "?w1\<lparr>events := events ?w1 @ [WaitForTimeout page]\<rparr>"
        show ?thesis
        proof (cases "fails env (events ?w1) (WaitForTimeout page)")
          case wf: (Some msg2)
          then have "w' = ?w2" "r = Inl (JsError Error msg2)"
            using "1.prems" True s more
            by (simp_all add: scrape_attempts.simps [of env sc page retryCount]
                page_waitForTimeout_def perform_def)
          then show ?thesis
            using wf True
            by (intro exI [of _ "[ScrapeJobs page, WaitForTimeout page]"] exI [of _ 1]) auto
        next
          case wok: None
          then have wt: "page_waitForTimeout env page ?w1 = (Inr (), ?w2)"
            by (simp add: page_waitForTimeout_def perform_def)
          have rec: "scrape_attempts env sc page (retryCount + 1) jobs ?w2 = (r, w')"
            using "1.prems" True s more wt
            by (simp add: scrape_attempts.simps [of env sc page retryCount])
          have more': "\<not> s_maxRetries sc \<le> retryCount + 1" using more by simp
          from "1.IH" [OF True s [symmetric] refl more' wt [symmetric] refl rec]
          obtain xs n where
            x: "events w' = events ?w2 @ xs
               \<and> list_all (\<lambda>e. e = ScrapeJobs page \<or> e = WaitForTimeout page) xs
               \<and> attempt_pages xs = replicate n page \<and> n \<le> s_maxRetries sc - (retryCount + 1)
               \<and> ((\<exists>e. r = Inl e) \<and> (\<forall>h. fails env h (WaitForTimeout page) = None)
                  \<longrightarrow> n = s_maxRetries sc - (retryCount + 1) \<and> 0 < n)"
            by (elim exE)
          let ?ys = "[ScrapeJobs page, WaitForTimeout page] @ xs"
          have e1: "events w' = events w @ ?ys" using x by simp
          have e2: "list_all (\<lambda>e. e = ScrapeJobs page \<or> e = WaitForTimeout page) ?ys"
            using x by simp
          have e3: "attempt_pages ?ys = replicate (Suc n) page" using x by simp
          have x4: "n \<le> s_maxRetries sc - (retryCount + 1)" using x by blast
          have e4: "Suc n \<le> s_maxRetries sc - retryCount" using x4 more True by linarith
          have e5: "(\<exists>e. r = Inl e) \<and> (\<forall>h. fails env h (WaitForTimeout page) = None)
                  \<longrightarrow> Suc n = s_maxRetries sc - retryCount \<and> 0 < Suc n"
            using x more True by (elim conjE) auto
          note c = conjI [OF e1 conjI [OF e2 conjI [OF e3 conjI [OF e4 e5]]]]
          show ?thesis
            by (rule exI [of _ ?ys], rule exI [of _ "Suc n"]) (rule c)
        qed
      qed
    qed
  qed
qed

lemma scrape_attempts_adds:
  "scrape_attempts env sc page k jobs w = (r, w') \<Longrightarrow> only_adds {PageUse} w w'"
proof -
  assume "scrape_attempts env sc page k jobs w = (r, w')"
  from scrape_attempts_trace [OF this] obtain xs where
    "events w' = events w @ xs"
    "list_all (\<lambda>e. e = ScrapeJobs page \<or> e = WaitForTimeout page) xs"
    by blast
  then show ?thesis
    by (auto simp: only_adds_def list_all_iff)
qed

lemmas frames =
  getBrowserForPlatform_adds [unfolded only_adds_def]
  setDefaultTimeouts_adds [unfolded only_adds_def]
  scrape_attempts_adds [unfolded only_adds_def]
  scraper_scrapeJobs_adds [unfolded only_adds_def]
  base_saveJobsToDatabase_adds [unfolded only_adds_def]
  service_saveJobsToDatabase_adds [unfolded only_adds_def]
  takeScreenshot_adds [unfolded only_adds_def]
  page_goto_adds [unfolded only_adds_def]
  adapter_checkLogin_adds [unfolded only_adds_def]
  adapter_login_adds [unfolded only_adds_def]
  adapter_applyToJob_adds [unfolded only_adds_def]
  notifyError_adds [unfolded only_adds_def]
  updateJobStatus_adds [unfolded only_adds_def]
  createApplication_adds [unfolded only_adds_def]

lemma scrape_try_adds:
  "scrape_try env cfg sc w = (r, hs, w') \<Longrightarrow> only_adds {Acquiring, PageUse, Store} w w'"
  unfolding scrape_try_def only_adds_def Let_def
  by (auto split: prod.splits sum.splits simp: list_all_iff
      dest!: getProxy_events frames)

lemma service_scrape_try_adds:
  "service_scrape_try env cfg p w = (r, hs, w') \<Longrightarrow> only_adds {Acquiring, PageUse, Store} w w'"
  unfolding service_scrape_try_def only_adds_def Let_def
  by (auto split: prod.splits sum.splits simp: list_all_iff
      dest!: getProxy_events frames)

lemma applyToJob_try_adds:
  "applyToJob_try env cfg p job v w = (r, v', w') \<Longrightarrow> only_adds {Acquiring, PageUse} w w'"
  unfolding applyToJob_try_def only_adds_def Let_def requiresLogin_def
  by (auto split: prod.splits sum.splits simp: list_all_iff
      dest!: getProxy_events frames)

lemma applyToJob_catch_adds:
  "applyToJob_catch env p job e v w = (r, v', w') \<Longrightarrow>
     only_adds {PageUse, Notify} w w' \<and> v_handles v' = v_handles v"
  unfolding applyToJob_catch_def only_adds_def Let_def
  by (auto split: prod.splits sum.splits option.splits simp: list_all_iff
      dest!: frames)

lemma testPlatform_try_adds:
  "testPlatform_try env cfg n w = (r, hs, w') \<Longrightarrow> only_adds {Acquiring, PageUse} w w'"
  unfolding testPlatform_try_def only_adds_def Let_def
  by (auto split: prod.splits sum.splits option.splits if_splits simp: list_all_iff
      dest!: frames)

lemma testPlatform_catch_world:
  "testPlatform_catch env n e hs w = (r, w') \<Longrightarrow> w' = w"
  unfolding testPlatform_catch_def
  by (auto split: prod.splits sum.splits option.splits dest!: takeScreenshot_throws)

lemma close_quietly_events [simp]: "events (close_quietly env c w) = events w @ [c]"
  by (simp add: close_quietly_def perform_def)

lemma disconnect_events [simp]: "events (disconnect b w) = events w"
  by (simp add: disconnect_def on_disconnected_def split: option.splits)

lemma close_browser_quietly_events [simp]:
  "events (close_browser_quietly env b w) = events w @ [CloseBrowser b]"
  by (simp add: close_browser_quietly_def perform_def split: option.splits)

lemma scrape_finally_closes:
  "scrape_finally env hs w = (r, w') \<Longrightarrow>
     r = Inr () \<and> events w' = events w @ release_of hs"
  by (auto simp: scrape_finally_def release_of_def Let_def split: option.splits)

lemma testPlatform_finally_closes:
  "testPlatform_finally env hs w = (r, w') \<Longrightarrow>
     r = Inr () \<and> events w' = events w @ release_all_of hs"
  by (auto simp: testPlatform_finally_def release_all_of_def Let_def split: option.splits)

lemma closes_simps [simp]:
  "closes [] = []"
  "closes (e # es) = (if kind e = Closing then e # closes es else closes es)"
  by (simp_all add: closes_def)

lemma closes_kind_eq: "list_all (\<lambda>e. kind e = k) xs \<Longrightarrow> k \<noteq> Closing \<Longrightarrow> closes xs = []"
  by (auto simp: closes_def filter_empty_conv list_all_iff)

lemma applyToJob_finally_closes:
  "applyToJob_finally env p job v w = (r, w') \<Longrightarrow>
     closes (events w') = closes (events w) @ release_of (v_handles v)"
  unfolding applyToJob_finally_def Let_def
  by (auto split: prod.splits sum.splits option.splits
      simp: release_of_def closes_kind_eq
      dest!: updateJobStatus_adds [unfolded only_adds_def]
             createApplication_adds [unfolded only_adds_def]
             updateApplicationStats_adds [unfolded only_adds_def])

section \<open>What the calls leave of the pool\<close>

lemma pool_of_simps:
  "pool_of w' = pool_of w \<Longrightarrow> browsers w' = browsers w"
  "pool_of w' = pool_of w \<Longrightarrow> launched w' = launched w"
  "pool_of w' = pool_of w \<Longrightarrow> gone w' = gone w"
  "pool_of w' = pool_of w \<Longrightarrow> next_handle w' = next_handle w"
  by (simp_all add: pool_of_def)

lemma pool_of_isConnected: "pool_of w' = pool_of w \<Longrightarrow> isConnected w' b = isConnected w b"
  by (simp add: pool_of_def isConnected_def)

lemma pool_of_updates [simp]:
  "pool_of (w\<lparr>events := evs\<rparr>) = pool_of w"
  "pool_of (w\<lparr>jobs_table := tbl\<rparr>) = pool_of w"
  "pool_of (w\<lparr>currentProxyIndex := i\<rparr>) = pool_of w"
  by (simp_all add: pool_of_def)

lemma perform_pool: "perform env c w = (r, w') \<Longrightarrow> pool_of w' = pool_of w"
  by (auto simp: perform_def)

lemma getProxy_pool: "getProxy env cfg w = (r, w') \<Longrightarrow> pool_of w' = pool_of w"
  by (auto simp: getProxy_def getNextProxy_def getRandomProxy_def Let_def
      split: if_splits prod.splits)

lemma setDefaultTimeouts_pool:
  "setDefaultTimeouts env p w = (r, w') \<Longrightarrow> pool_of w' = pool_of w"
  by (auto simp: setDefaultTimeouts_def perform_def split: option.splits)

lemma page_goto_pool: "page_goto env p u w = (r, w') \<Longrightarrow> pool_of w' = pool_of w"
  by (auto simp: page_goto_def perform_def split: option.splits)

lemma page_waitForTimeout_pool:
  "page_waitForTimeout env p w = (r, w') \<Longrightarrow> pool_of w' = pool_of w"
  by (auto simp: page_waitForTimeout_def perform_def split: option.splits)

lemma adapter_checkLogin_pool:
  "adapter_checkLogin env k p w = (r, w') \<Longrightarrow> pool_of w' = pool_of w"
  by (auto simp: adapter_checkLogin_def perform_def split: option.splits)

lemma adapter_login_pool: "adapter_login env k p w = (r, w') \<Longrightarrow> pool_of w' = pool_of w"
  by (auto simp: adapter_login_def perform_def split: option.splits)

lemma adapter_applyToJob_pool:
  "adapter_applyToJob env k p w = (r, w') \<Longrightarrow> pool_of w' = pool_of w"
  by (auto simp: adapter_applyToJob_def perform_def split: option.splits)

lemma scraper_scrapeJobs_pool:
  "scraper_scrapeJobs env p w = (r, w') \<Longrightarrow> pool_of w' = pool_of w"
  by (auto simp: scraper_scrapeJobs_def perform_def split: option.splits)

lemma updateJobStatus_pool:
  "updateJobStatus env j s w = (r, w') \<Longrightarrow> pool_of w' = pool_of w"
  by (auto simp: updateJobStatus_def store_failure_def perform_def split: option.splits)

lemma notifyError_pool: "notifyError env k w = (r, w') \<Longrightarrow> pool_of w' = pool_of w"
  by (auto simp: notifyError_def sendWebhookNotification_def telegram_sendMessage_def
      perform_def split: option.splits)

lemma notifyApplicationResults_pool:
  "notifyApplicationResults env w = (r, w') \<Longrightarrow> pool_of w' = pool_of w"
  by (auto simp: notifyApplicationResults_def sendWebhookNotification_def
      telegram_sendMessage_def perform_def split: option.splits)

lemma select_jobs_pool: "select_jobs env c m w = (r, w') \<Longrightarrow> pool_of w' = pool_of w"
  by (auto simp: select_jobs_def perform_def split: option.splits)

lemma insert_job_pool: "insert_job env c x w = (r, w') \<Longrightarrow> pool_of w' = pool_of w"
  by (auto simp: insert_job_def perform_def split: option.splits)

lemma close_quietly_pool [simp]: "pool_of (close_quietly env c w) = pool_of w"
  by (simp add: close_quietly_def perform_def)

lemma base_save_loop_pool:
  "base_save_loop env P js st w = (st', w') \<Longrightarrow> pool_of w' = pool_of w"
proof (induction js arbitrary: st w)
  case Nil
  then show ?case by simp
next
  case (Cons j js)
  obtain r1 w1 where s: "select_jobs env (SelectJob P (l_url j))
      (\<lambda>r. row_platform r = P \<and> row_url r = l_url j) w = (r1, w1)"
    by (cases "select_jobs env (SelectJob P (l_url j))
      (\<lambda>r. row_platform r = P \<and> row_url r = l_url j) w")
  have a1: "pool_of w1 = pool_of w" by (rule select_jobs_pool [OF s])
  obtain r2 w2 where i: "insert_job env (InsertJob P (l_url j))
      \<lparr>row_platform = P, row_url = l_url j, row_job_id = None, row_title = l_title j\<rparr> w1
      = (r2, w2)"
    by (cases "insert_job env (InsertJob P (l_url j))
      \<lparr>row_platform = P, row_url = l_url j, row_job_id = None, row_title = l_title j\<rparr> w1")
  have a2: "pool_of w2 = pool_of w"
    using insert_job_pool [OF i] a1 by simp
  from Cons.prems s i show ?case
    using a1 a2
    by (auto split: store_reply.splits if_splits dest!: Cons.IH)
qed

lemma base_saveJobsToDatabase_pool:
  "base_saveJobsToDatabase env P js w = (r, w') \<Longrightarrow> pool_of w' = pool_of w"
  by (auto simp: base_saveJobsToDatabase_def Let_def split: if_splits prod.splits
      dest!: base_save_loop_pool)

lemma service_save_loop_pool:
  "service_save_loop env js st w = (r, w') \<Longrightarrow> pool_of w' = pool_of w"
proof (induction js arbitrary: st w)
  case Nil
  then show ?case by simp
next
  case (Cons j js)
  obtain r1 w1 where s: "select_jobs env (SelectJob (l_platform j) (l_job_id j))
      (\<lambda>r. row_platform r = l_platform j \<and> row_job_id r = Some (l_job_id j)) w = (r1, w1)"
    by (cases "select_jobs env (SelectJob (l_platform j) (l_job_id j))
      (\<lambda>r. row_platform r = l_platform j \<and> row_job_id r = Some (l_job_id j)) w")
  have a1: "pool_of w1 = pool_of w" by (rule select_jobs_pool [OF s])
  obtain r2 w2 where i: "insert_job env (InsertJob (l_platform j) (l_job_id j))
      \<lparr>row_platform = l_platform j, row_url = l_apply_url j,
       row_job_id = Some (l_job_id j), row_title = l_title j\<rparr> w1 = (r2, w2)"
    by (cases "insert_job env (InsertJob (l_platform j) (l_job_id j))
      \<lparr>row_platform = l_platform j, row_url = l_apply_url j,
       row_job_id = Some (l_job_id j), row_title = l_title j\<rparr> w1")
  have a2: "pool_of w2 = pool_of w"
    using insert_job_pool [OF i] a1 by simp
  from Cons.prems s i show ?case
    using a1 a2
    by (auto split: store_reply.splits if_splits dest!: Cons.IH)
qed

lemma service_saveJobsToDatabase_pool:
  "service_saveJobsToDatabase env js w = (r, w') \<Longrightarrow> pool_of w' = pool_of w"
  by (auto simp: service_saveJobsToDatabase_def dest!: service_save_loop_pool)

lemma scrape_attempts_pool:
  "scrape_attempts env sc page k jobs w = (r, w') \<Longrightarrow> pool_of w' = pool_of w"
proof -
  assume "scrape_attempts env sc page k jobs w = (r, w')"
  then show ?thesis
  proof (induction env sc page k jobs w arbitrary: r w' rule: scrape_attempts.induct)
    case (1 env sc page retryCount jobs w)
    show ?case
    proof (cases "retryCount < s_maxRetries sc")
      case False
      then show ?thesis using "1.prems" by (simp add: scrape_attempts.simps)
    next
      case True
      obtain r1 w1 where s: "scraper_scrapeJobs env page w = (r1, w1)"
        by (cases "scraper_scrapeJobs env page w")
      have p1: "pool_of w1 = pool_of w" by (rule scraper_scrapeJobs_pool [OF s])
      show ?thesis
      proof (cases r1)
        case (Inr found)
        then have "w' = w1"
          using "1.prems" True s by (simp add: scrape_attempts.simps [of env sc page retryCount])
        then show ?thesis using p1 by simp
      next
        case (Inl error)
        show ?thesis
        proof (cases "retryCount + 1 \<ge> s_maxRetries sc")
          case last: True
          then have "w' = w1"
            using "1.prems" True s Inl
            by (simp add: scrape_attempts.simps [of env sc page retryCount])
          then show ?thesis using p1 by simp
        next
          case more: False
          obtain r2 w2 where t: "page_waitForTimeout env page w1 = (r2, w2)"
            by (cases "page_waitForTimeout env page w1")
          have p2: "pool_of w2 = pool_of w" using page_waitForTimeout_pool [OF t] p1 by simp
          show ?thesis
          proof (cases r2)
            case l2: (Inl e)
            then have "w' = w2"
              using "1.prems" True s Inl more t
              by (simp add: scrape_attempts.simps [of env sc page retryCount])
            then show ?thesis using p2 by simp
          next
            case r2: (Inr u)
            have rec: "scrape_attempts env sc page (retryCount + 1) jobs w2 = (r, w')"
              using "1.prems" True s Inl more t r2
              by (simp add: scrape_attempts.simps [of env sc page retryCount])
            have more': "\<not> s_maxRetries sc \<le> retryCount + 1" using more by simp
            have s': "(r1, w1) = scraper_scrapeJobs env page w" using s by simp
            have t': "(r2, w2) = page_waitForTimeout env page w1" using t by simp
            from "1.IH" [OF True s' Inl more' t' r2 rec] p2 show ?thesis by simp
          qed
        qed
      qed
    qed
  qed
qed

section \<open>What an acquisition establishes\<close>

lemma handles_issued_pool: "pool_of w' = pool_of w \<Longrightarrow> handles_issued w' = handles_issued w"
  by (simp add: handles_issued_def pool_of_def)

lemma chromium_launch_pool:
  "chromium_launch env k p w = (Inr b, w') \<Longrightarrow>
     b = next_handle w \<and> launched w' = launched w @ [(b, k)] \<and> gone w' = gone w \<and>
     browsers w' = browsers w"
  by (auto simp: chromium_launch_def perform_def fresh_handle_def split: option.splits)

lemma newContext_pool:
  "newContext env b w = (r, w') \<Longrightarrow>
     launched w' = launched w \<and> gone w' = gone w \<and> browsers w' = browsers w"
  by (auto simp: newContext_def perform_def fresh_handle_def split: option.splits)

lemma newPage_pool:
  "newPage env c w = (r, w') \<Longrightarrow>
     launched w' = launched w \<and> gone w' = gone w \<and> browsers w' = browsers w"
  by (auto simp: newPage_def perform_def fresh_handle_def split: option.splits)

lemma restoreCookies_pool [simp]:
  "launched (restoreCookies env c w) = launched w"
  "gone (restoreCookies env c w) = gone w"
  "browsers (restoreCookies env c w) = browsers w"
  by (simp_all add: restoreCookies_def perform_def)

lemma create_browser_pool:
  assumes "create_browser env k p w = (Inr h, w')"
  shows "h_browser h = next_handle w \<and> (h_browser h, k) \<in> set (launched w') \<and>
         gone w' = gone w \<and> browsers w' k = Some (h_browser h)"
proof -
  obtain r1 w1 where l: "chromium_launch env k p w = (r1, w1)"
    by (cases "chromium_launch env k p w")
  show ?thesis
  proof (cases r1)
    case (Inl e)
    then show ?thesis using assms l by (simp add: create_browser_def)
  next
    case (Inr b)
    note l1 = chromium_launch_pool [OF l [unfolded Inr]]
    obtain r2 w2 where c: "newContext env b w1 = (r2, w2)"
      by (cases "newContext env b w1")
    note c1 = newContext_pool [OF c]
    show ?thesis
    proof (cases r2)
      case l2: (Inl e)
      then show ?thesis using assms l Inr c by (simp add: create_browser_def)
    next
      case r2: (Inr ctx)
      obtain r3 w3 where g: "newPage env ctx (restoreCookies env ctx w2) = (r3, w3)"
        by (cases "newPage env ctx (restoreCookies env ctx w2)")
      note g1 = newPage_pool [OF g]
      show ?thesis
      proof (cases r3)
        case l3: (Inl e)
        then show ?thesis using assms l Inr c r2 g by (simp add: create_browser_def)
      next
        case r3: (Inr pg)
        obtain r4 w4 where t: "setDefaultTimeouts env pg w3 = (r4, w4)"
          by (cases "setDefaultTimeouts env pg w3")
        note t1 = pool_of_simps [OF setDefaultTimeouts_pool [OF t]]
        show ?thesis
        proof (cases r4)
          case l4: (Inl e)
          then show ?thesis using assms l Inr c r2 g r3 t by (simp add: create_browser_def)
        next
          case r4: (Inr u)
          have "h = \<lparr>h_browser = b, h_context = ctx, h_page = pg\<rparr>"
               "w' = w4\<lparr>browsers := (browsers w4)(k \<mapsto> b)\<rparr>"
            using assms l Inr c r2 g r3 t r4 by (simp_all add: create_browser_def)
          then show ?thesis using l1 c1 g1 t1 by simp
        qed
      qed
    qed
  qed
qed

lemma create_browser_connected:
  assumes "create_browser env k p w = (Inr h, w')" "handles_issued w"
  shows "isConnected w' (h_browser h) \<and> browsers w' k = Some (h_browser h)"
proof -
  note c = create_browser_pool [OF assms(1)]
  have "next_handle w \<notin> set (gone w)"
    using assms(2) by (auto simp: handles_issued_def list_all_iff)
  then show ?thesis using c by (force simp: isConnected_def)
qed

lemma getBrowserForPlatform_available:
  assumes run: "getBrowserForPlatform env platform opts w = (Inr h, w')"
    and wf: "handles_issued w"
  shows "available_for_reuse w' platform (Some h)"
proof -
  let ?key = "toLowerCase platform"
  let ?use = "default_to True (opt_useExisting opts)"
  show ?thesis
  proof (cases "if ?use then browsers w ?key else None")
    case None
    then have "create_browser env ?key (opt_proxy opts) w = (Inr h, w')"
      using run by (simp add: getBrowserForPlatform_def Let_def)
    from create_browser_connected [OF this wf] show ?thesis
      by (simp add: available_for_reuse_def)
  next
    case (Some b)
    then have b: "browsers w ?key = Some b" by (simp split: if_splits)
    show ?thesis
    proof (cases "isConnected w b")
      case False
      let ?w0 = "w\<lparr>browsers := (browsers w)(?key := None)\<rparr>"
      have "create_browser env ?key (opt_proxy opts) ?w0 = (Inr h, w')"
        using run Some False by (simp add: getBrowserForPlatform_def Let_def)
      moreover have "handles_issued ?w0" using wf by (simp add: handles_issued_def)
      ultimately show ?thesis
        using create_browser_connected by (simp add: available_for_reuse_def)
    next
      case True
      obtain r1 w1 where c: "newContext env b w = (r1, w1)"
        by (cases "newContext env b w")
      note c1 = newContext_pool [OF c]
      show ?thesis
      proof (cases r1)
        case (Inl e)
        then show ?thesis using run Some True c by (simp add: getBrowserForPlatform_def Let_def)
      next
        case (Inr ctx)
        obtain r2 w2 where g: "newPage env ctx w1 = (r2, w2)"
          by (cases "newPage env ctx w1")
        note g1 = newPage_pool [OF g]
        show ?thesis
        proof (cases r2)
          case l2: (Inl e)
          then show ?thesis
            using run Some True c Inr g by (simp add: getBrowserForPlatform_def Let_def)
        next
          case r2: (Inr pg)
          have "h_browser h = b" "w' = w2"
            using run Some True c Inr g r2 by (auto simp: getBrowserForPlatform_def Let_def)
          then show ?thesis
            using True b c1 g1 by (simp add: available_for_reuse_def isConnected_def)
        qed
      qed
    qed
  qed
qed

lemma available_pool:
  "pool_of w' = pool_of w \<Longrightarrow> available_for_reuse w' p hs = available_for_reuse w p hs"
  by (cases hs) (simp_all add: available_for_reuse_def pool_of_def isConnected_def)

lemma available_None [simp]: "available_for_reuse w p None"
  by (simp add: available_for_reuse_def)

section \<open>Release of page and context\<close>

lemma closes_release_of [simp]: "closes (release_of hs) = release_of hs"
  by (simp add: release_of_def split: option.splits)

lemma closes_release_all_of [simp]: "closes (release_all_of hs) = release_all_of hs"
  by (simp add: release_all_of_def split: option.splits)

lemma release_of_None [simp]: "release_of None = []" "release_all_of None = []"
  by (simp_all add: release_of_def release_all_of_def)

lemma available_keeps:
  "pool_of w' = pool_of w \<Longrightarrow> available_for_reuse w p hs \<Longrightarrow> available_for_reuse w' p hs"
  using available_pool [of w' w p hs] by simp

lemma getProxy_closes: "getProxy env cfg w = (r, w') \<Longrightarrow> closes (events w') = closes (events w)"
  by (drule getProxy_events) simp

lemma getBrowserForPlatform_closes:
  "getBrowserForPlatform env p opts w = (r, w') \<Longrightarrow> closes (events w') = closes (events w)"
  by (rule only_adds_closes [OF getBrowserForPlatform_adds]) simp_all

lemma scrape_finally_pool:
  "scrape_finally env hs w = (r, w') \<Longrightarrow> pool_of w' = pool_of w"
  by (auto simp: scrape_finally_def Let_def split: option.splits)

text \<open>The \<open>try\<close> block of \<open>BaseScraper.scrape\<close>, from the acquisition on.\<close>

lemma scrape_try_acquired:
  assumes run: "scrape_try env cfg sc w = (r, hs, w')"
    and p: "getProxy env cfg w = (proxy, w1)"
    and g: "getBrowserForPlatform env (s_platform sc)
              \<lparr>opt_proxy = proxy, opt_useExisting = Some False\<rparr> w1 = (r2, w2)"
  shows "hs = (case r2 of Inl e \<Rightarrow> None | Inr h \<Rightarrow> Some h)"
    and "pool_of w' = pool_of w2"
    and "closes (events w') = closes (events w)"
proof -
  have c2: "closes (events w2) = closes (events w)"
    using getProxy_closes [OF p] getBrowserForPlatform_closes [OF g] by simp
  have "hs = (case r2 of Inl e \<Rightarrow> None | Inr h \<Rightarrow> Some h) \<and> pool_of w' = pool_of w2
        \<and> closes (events w') = closes (events w2)"
  proof (cases r2)
    case (Inl e)
    then show ?thesis using run p g by (simp add: scrape_try_def)
  next
    case (Inr h)
    obtain r3 w3 where t: "setDefaultTimeouts env (h_page h) w2 = (r3, w3)"
      by (cases "setDefaultTimeouts env (h_page h) w2")
    have p3: "pool_of w3 = pool_of w2" by (rule setDefaultTimeouts_pool [OF t])
    have c3: "closes (events w3) = closes (events w2)"
      by (rule only_adds_closes [OF setDefaultTimeouts_adds [OF t]]) simp
    show ?thesis
    proof (cases r3)
      case l3: (Inl e)
      then have "hs = Some h" "w' = w3"
        using run p g Inr t by (simp_all add: scrape_try_def Let_def)
      then show ?thesis using Inr p3 c3 by simp
    next
      case r3: (Inr u)
      obtain r4 w4 where a: "scrape_attempts env sc (h_page h) 0 [] w3 = (r4, w4)"
        by (cases "scrape_attempts env sc (h_page h) 0 [] w3")
      have p4: "pool_of w4 = pool_of w2" using scrape_attempts_pool [OF a] p3 by simp
      have c4: "closes (events w4) = closes (events w2)"
        using only_adds_closes [OF scrape_attempts_adds [OF a]] c3 by simp
      show ?thesis
      proof (cases r4)
        case l4: (Inl e)
        then have "hs = Some h" "w' = w4"
          using run p g Inr t r3 a by (simp_all add: scrape_try_def Let_def)
        then show ?thesis using Inr p4 c4 by simp
      next
        case r4: (Inr js)
        obtain r5 w5 where s: "base_saveJobsToDatabase env (s_platform sc) js w4 = (r5, w5)"
          by (cases "base_saveJobsToDatabase env (s_platform sc) js w4")
        have p5: "pool_of w5 = pool_of w2" using base_saveJobsToDatabase_pool [OF s] p4 by simp
        have c5: "closes (events w5) = closes (events w2)"
          using only_adds_closes [OF base_saveJobsToDatabase_adds [OF s]] c4 by simp
        have "hs = Some h" "w' = w5"
          using run p g Inr t r3 a r4 s
          by (auto simp: scrape_try_def Let_def split: sum.splits)
        then show ?thesis using Inr p5 c5 by simp
      qed
    qed
  qed
  then show "hs = (case r2 of Inl e \<Rightarrow> None | Inr h \<Rightarrow> Some h)"
    and "pool_of w' = pool_of w2"
    and "closes (events w') = closes (events w)"
    using c2 by simp_all
qed

lemma scrape_run_release:
  assumes run: "scrape_run env cfg sc kw w = (r, hs, w')"
  shows "hs = scrape_acquired env cfg sc kw w"
    and "closes (events w') = closes (events w) @ release_of (scrape_acquired env cfg sc kw w)"
    and "handles_issued w \<Longrightarrow> available_for_reuse w' (s_platform sc) (scrape_acquired env cfg sc kw w)"
proof -
  have "hs = scrape_acquired env cfg sc kw w
        \<and> closes (events w') = closes (events w) @ release_of hs
        \<and> (handles_issued w \<longrightarrow> available_for_reuse w' (s_platform sc) hs)"
  proof (cases "truthy kw")
    case False
    then show ?thesis using run by (auto simp: scrape_run_def scrape_acquired_def)
  next
    case True
    obtain proxy w1 where p: "getProxy env cfg w = (proxy, w1)"
      by (cases "getProxy env cfg w")
    obtain r2 w2 where
      g: "getBrowserForPlatform env (s_platform sc)
            \<lparr>opt_proxy = proxy, opt_useExisting = Some False\<rparr> w1 = (r2, w2)"
      by (cases "getBrowserForPlatform env (s_platform sc)
            \<lparr>opt_proxy = proxy, opt_useExisting = Some False\<rparr> w1")
    obtain r1 hs1 w3 where t: "scrape_try env cfg sc w = (r1, hs1, w3)"
      by (cases "scrape_try env cfg sc w")
    note t3 = scrape_try_acquired [OF t p g]
    obtain r4 w4 where f: "scrape_finally env hs1 w3 = (r4, w4)"
      by (cases "scrape_finally env hs1 w3")
    have f4: "r4 = Inr ()" "events w4 = events w3 @ release_of hs1"
      using scrape_finally_closes [OF f] by simp_all
    have eq: "w' = w4 \<and> hs = hs1"
      using run True t f f4(1) by (cases r1) (simp_all add: scrape_run_def)
    have acq: "scrape_acquired env cfg sc kw w = hs1"
      using True p g t3(1) by (cases r2) (simp_all add: scrape_acquired_def)
    have cl: "closes (events w4) = closes (events w) @ release_of hs1"
      using f4(2) t3(3) by simp
    let ?P = "s_platform sc"
    have av: "available_for_reuse w4 (s_platform sc) hs1" if wf: "handles_issued w"
    proof (cases r2)
      case (Inl e)
      then show ?thesis using t3(1) by simp
    next
      case (Inr h)
      have "handles_issued w1" using wf handles_issued_pool [OF getProxy_pool [OF p]] by simp
      from getBrowserForPlatform_available [OF g [unfolded Inr] this]
      have "available_for_reuse w2 (s_platform sc) (Some h)" .
      moreover have "pool_of w4 = pool_of w2" using scrape_finally_pool [OF f] t3(2) by simp
      ultimately have "available_for_reuse w4 ?P (Some h)"
        by (rule available_keeps [rotated])
      then show ?thesis using t3(1) Inr by simp
    qed
    show ?thesis using eq acq cl av by simp
  qed
  then show "hs = scrape_acquired env cfg sc kw w"
    and "closes (events w') = closes (events w) @ release_of (scrape_acquired env cfg sc kw w)"
    and "handles_issued w \<Longrightarrow> available_for_reuse w' (s_platform sc) (scrape_acquired env cfg sc kw w)"
    by blast+
qed

text \<open>\<open>scrapeJobs\<close> of the scraping service.\<close>

lemma service_scrape_try_acquired:
  assumes run: "service_scrape_try env cfg platform w = (r, hs, w')"
    and p: "getProxy env cfg w = (proxy, w1)"
    and g: "getBrowserForPlatform env platform
              \<lparr>opt_proxy = proxy, opt_useExisting = Some False\<rparr> w1 = (r2, w2)"
  shows "hs = (case r2 of Inl e \<Rightarrow> None | Inr h \<Rightarrow> Some h)"
    and "pool_of w' = pool_of w2"
    and "closes (events w') = closes (events w)"
proof -
  have c2: "closes (events w2) = closes (events w)"
    using getProxy_closes [OF p] getBrowserForPlatform_closes [OF g] by simp
  have "hs = (case r2 of Inl e \<Rightarrow> None | Inr h \<Rightarrow> Some h) \<and> pool_of w' = pool_of w2
        \<and> closes (events w') = closes (events w2)"
  proof (cases r2)
    case (Inl e)
    then show ?thesis using run p g by (simp add: service_scrape_try_def)
  next
    case (Inr h)
    obtain r3 w3 where a: "scraper_scrapeJobs env (h_page h) w2 = (r3, w3)"
      by (cases "scraper_scrapeJobs env (h_page h) w2")
    have p3: "pool_of w3 = pool_of w2" by (rule scraper_scrapeJobs_pool [OF a])
    have c3: "closes (events w3) = closes (events w2)"
      by (rule only_adds_closes [OF scraper_scrapeJobs_adds [OF a]]) simp
    show ?thesis
    proof (cases r3)
      case l3: (Inl e)
      then have "hs = Some h" "w' = w3"
        using run p g Inr a by (simp_all add: service_scrape_try_def)
      then show ?thesis using Inr p3 c3 by simp
    next
      case r3: (Inr js)
      obtain r5 w5 where s: "service_saveJobsToDatabase env js w3 = (r5, w5)"
        by (cases "service_saveJobsToDatabase env js w3")
      have p5: "pool_of w5 = pool_of w2" using service_saveJobsToDatabase_pool [OF s] p3 by simp
      have c5: "closes (events w5) = closes (events w2)"
        using only_adds_closes [OF service_saveJobsToDatabase_adds [OF s]] c3 by simp
      have "hs = Some h" "w' = w5"
        using run p g Inr a r3 s
        by (auto simp: service_scrape_try_def split: sum.splits)
      then show ?thesis using Inr p5 c5 by simp
    qed
  qed
  then show "hs = (case r2 of Inl e \<Rightarrow> None | Inr h \<Rightarrow> Some h)"
    and "pool_of w' = pool_of w2"
    and "closes (events w') = closes (events w)"
    using c2 by simp_all
qed

lemma service_scrapeJobs_run_release:
  assumes run: "service_scrapeJobs_run env cfg platform kw w = (r, hs, w')"
  shows "hs = service_acquired env cfg platform kw w"
    and "closes (events w') = closes (events w) @ release_of (service_acquired env cfg platform kw w)"
    and "handles_issued w \<Longrightarrow>
           available_for_reuse w' (the platform) (service_acquired env cfg platform kw w)"
proof -
  have "hs = service_acquired env cfg platform kw w
        \<and> closes (events w') = closes (events w) @ release_of hs
        \<and> (handles_issued w \<longrightarrow> available_for_reuse w' (the platform) hs)"
  proof (cases "truthy platform \<and> truthy kw \<and> (\<exists>k. getPlatformInstance (the platform) = Inr k)")
    case False
    then consider "\<not> truthy platform" | "truthy platform" "\<not> truthy kw"
      | e where "truthy platform" "truthy kw" "getPlatformInstance (the platform) = Inl e"
      by (cases "getPlatformInstance (the platform)") auto
    then have "hs = None \<and> w' = w \<and> service_acquired env cfg platform kw w = None"
    proof cases
      case 1
      then show ?thesis using run by (simp add: service_scrapeJobs_run_def service_acquired_def)
    next
      case 2
      then show ?thesis using run by (simp add: service_scrapeJobs_run_def service_acquired_def)
    next
      case 3
      then show ?thesis using run by (simp add: service_scrapeJobs_run_def service_acquired_def)
    qed
    then show ?thesis by simp
  next
    case True
    then obtain k where k: "getPlatformInstance (the platform) = Inr k" by blast
    obtain proxy w1 where p: "getProxy env cfg w = (proxy, w1)"
      by (cases "getProxy env cfg w")
    obtain r2 w2 where
      g: "getBrowserForPlatform env (the platform)
            \<lparr>opt_proxy = proxy, opt_useExisting = Some False\<rparr> w1 = (r2, w2)"
      by (cases "getBrowserForPlatform env (the platform)
            \<lparr>opt_proxy = proxy, opt_useExisting = Some False\<rparr> w1")
    obtain r1 hs1 w3 where t: "service_scrape_try env cfg (the platform) w = (r1, hs1, w3)"
      by (cases "service_scrape_try env cfg (the platform) w")
    note t3 = service_scrape_try_acquired [OF t p g]
    obtain r4 w4 where f: "scrape_finally env hs1 w3 = (r4, w4)"
      by (cases "scrape_finally env hs1 w3")
    have f4: "r4 = Inr ()" "events w4 = events w3 @ release_of hs1"
      using scrape_finally_closes [OF f] by simp_all
    have eq: "w' = w4 \<and> hs = hs1"
      using run True k t f f4(1) by (simp add: service_scrapeJobs_run_def)
    have acq: "service_acquired env cfg platform kw w = hs1"
      using True k p g t3(1) by (cases r2) (simp_all add: service_acquired_def)
    have cl: "closes (events w4) = closes (events w) @ release_of hs1"
      using f4(2) t3(3) by simp
    let ?P = "the platform"
    have av: "available_for_reuse w4 (the platform) hs1" if wf: "handles_issued w"
    proof (cases r2)
      case (Inl e)
      then show ?thesis using t3(1) by simp
    next
      case (Inr h)
      have "handles_issued w1" using wf handles_issued_pool [OF getProxy_pool [OF p]] by simp
      from getBrowserForPlatform_available [OF g [unfolded Inr] this]
      have "available_for_reuse w2 (the platform) (Some h)" .
      moreover have "pool_of w4 = pool_of w2" using scrape_finally_pool [OF f] t3(2) by simp
      ultimately have "available_for_reuse w4 ?P (Some h)"
        by (rule available_keeps [rotated])
      then show ?thesis using t3(1) Inr by simp
    qed
    show ?thesis using eq acq cl av by simp
  qed
  then show "hs = service_acquired env cfg platform kw w"
    and "closes (events w') = closes (events w) @ release_of (service_acquired env cfg platform kw w)"
    and "handles_issued w \<Longrightarrow>
           available_for_reuse w' (the platform) (service_acquired env cfg platform kw w)"
    by blast+
qed

text \<open>\<open>applyToJob\<close>: the three blocks, then the whole operation.\<close>

lemma applyToJob_try_closes:
  "applyToJob_try env cfg p job v w = (r, v', w') \<Longrightarrow> closes (events w') = closes (events w)"
  by (rule only_adds_closes [OF applyToJob_try_adds]) simp_all

lemma applyToJob_try_acquired:
  assumes run: "applyToJob_try env cfg p job v w = (r, v', w')"
    and k: "getPlatformInstance p = Inr k"
    and px: "getProxy env cfg w = (proxy, w1)"
    and g: "getBrowserForPlatform env p \<lparr>opt_proxy = proxy, opt_useExisting = None\<rparr> w1
              = (r2, w2)"
  shows "v_handles v' = (case r2 of Inl e \<Rightarrow> v_handles v | Inr h \<Rightarrow> Some h)"
    and "pool_of w' = pool_of w2"
proof -
  have "v_handles v' = (case r2 of Inl e \<Rightarrow> v_handles v | Inr h \<Rightarrow> Some h)
        \<and> pool_of w' = pool_of w2"
  proof (cases r2)
    case (Inl e)
    then show ?thesis using run k px g by (simp add: applyToJob_try_def)
  next
    case (Inr h)
    let ?v1 = "v\<lparr>v_handles := Some h\<rparr>"
    obtain r3 w3 where l: "adapter_login env k (h_page h) w2 = (r3, w3)"
      by (cases "adapter_login env k (h_page h) w2")
    have p3: "pool_of w3 = pool_of w2" by (rule adapter_login_pool [OF l])
    show ?thesis
    proof (cases r3)
      case l3: (Inl e)
      then have "v' = ?v1" "w' = w3"
        using run k px g Inr l by (simp_all add: applyToJob_try_def Let_def requiresLogin_def)
      then show ?thesis using Inr p3 by simp
    next
      case r3: (Inr u)
      obtain r4 w4 where n: "page_goto env (h_page h) (the (job_url job)) w3 = (r4, w4)"
        by (cases "page_goto env (h_page h) (the (job_url job)) w3")
      have p4: "pool_of w4 = pool_of w2" using page_goto_pool [OF n] p3 by simp
      show ?thesis
      proof (cases r4)
        case l4: (Inl e)
        then have "v' = ?v1" "w' = w4"
          using run k px g Inr l r3 n
          by (simp_all add: applyToJob_try_def Let_def requiresLogin_def)
        then show ?thesis using Inr p4 by simp
      next
        case r4: (Inr u4)
        obtain r5 w5 where a: "adapter_applyToJob env k (h_page h) w4 = (r5, w5)"
          by (cases "adapter_applyToJob env k (h_page h) w4")
        have p5: "pool_of w5 = pool_of w2" using adapter_applyToJob_pool [OF a] p4 by simp
        show ?thesis
        proof (cases r5)
          case l5: (Inl e)
          then have "v' = ?v1" "w' = w5"
            using run k px g Inr l r3 n r4 a
            by (simp_all add: applyToJob_try_def Let_def requiresLogin_def)
          then show ?thesis using Inr p5 by simp
        next
          case r5: (Inr u5)
          have "v' = ?v1" "w' = w5"
            using run k px g Inr l r3 n r4 a r5
            by (simp_all add: applyToJob_try_def Let_def requiresLogin_def takeScreenshot_def)
          then show ?thesis using Inr p5 by simp
        qed
      qed
    qed
  qed
  then show "v_handles v' = (case r2 of Inl e \<Rightarrow> v_handles v | Inr h \<Rightarrow> Some h)"
    and "pool_of w' = pool_of w2"
    by blast+
qed

lemma applyToJob_try_unsupported:
  "getPlatformInstance p = Inl e \<Longrightarrow> applyToJob_try env cfg p job v w = (Inl e, v, w)"
  by (simp add: applyToJob_try_def)

lemma applyToJob_catch_keeps:
  assumes "applyToJob_catch env p job e v w = (r, v', w')"
  shows "closes (events w') = closes (events w)" and "v_handles v' = v_handles v"
    and "pool_of w' = pool_of w"
proof -
  note a = applyToJob_catch_adds [OF assms]
  show "closes (events w') = closes (events w)"
    by (rule only_adds_closes [OF conjunct1 [OF a]]) simp_all
  show "v_handles v' = v_handles v" by (rule conjunct2 [OF a])
  show "pool_of w' = pool_of w"
    using assms unfolding applyToJob_catch_def Let_def takeScreenshot_def
    by (auto split: option.splits prod.splits dest!: notifyError_pool)
qed

lemma applyToJob_finally_keeps:
  assumes "applyToJob_finally env p job v w = (r, w')"
  shows "closes (events w') = closes (events w) @ release_of (v_handles v)"
    and "pool_of w' = pool_of w"
proof -
  show "closes (events w') = closes (events w) @ release_of (v_handles v)"
    by (rule applyToJob_finally_closes [OF assms])
  show "pool_of w' = pool_of w"
    using assms
    unfolding applyToJob_finally_def Let_def createApplication_def updateApplicationStats_def
    by (auto split: option.splits prod.splits sum.splits dest!: updateJobStatus_pool)
qed

lemma applyToJob_body_release:
  assumes run: "applyToJob_body env cfg p job w = (r, hs, w')"
  shows "closes (events w') = closes (events w) @ release_of hs"
    and "\<And>e. getPlatformInstance p = Inl e \<Longrightarrow> hs = None"
    and "\<And>k proxy w1 r2 w2. getPlatformInstance p = Inr k \<Longrightarrow> getProxy env cfg w = (proxy, w1) \<Longrightarrow>
           getBrowserForPlatform env p \<lparr>opt_proxy = proxy, opt_useExisting = None\<rparr> w1
             = (r2, w2) \<Longrightarrow>
           hs = (case r2 of Inl e \<Rightarrow> None | Inr h \<Rightarrow> Some h) \<and> pool_of w' = pool_of w2"
proof -
  let ?v0 = "\<lparr>v_handles = None, v_screenshotPath = None, v_errorMessage = None,
              v_status = ''failed''\<rparr>"
  obtain r1 v1 w2 where t: "applyToJob_try env cfg p job ?v0 w = (r1, v1, w2)"
    by (cases "applyToJob_try env cfg p job ?v0 w")
  obtain r2 v2 w3 where
    c: "(case r1 of Inl error \<Rightarrow> applyToJob_catch env p job error v1 w2
         | Inr _ \<Rightarrow> (Inr (), v1, w2)) = (r2, v2, w3)"
    by (cases "case r1 of Inl error \<Rightarrow> applyToJob_catch env p job error v1 w2
         | Inr _ \<Rightarrow> (Inr (), v1, w2)")
  obtain r3 w4 where f: "applyToJob_finally env p job v2 w3 = (r3, w4)"
    by (cases "applyToJob_finally env p job v2 w3")
  have c2: "closes (events w2) = closes (events w)"
    by (rule applyToJob_try_closes [OF t])
  have c3: "closes (events w3) = closes (events w2) \<and> v_handles v2 = v_handles v1
            \<and> pool_of w3 = pool_of w2"
  proof (cases r1)
    case (Inl error)
    then have "applyToJob_catch env p job error v1 w2 = (r2, v2, w3)"
      using c by simp
    from applyToJob_catch_keeps [OF this] show ?thesis by simp
  next
    case (Inr y)
    then show ?thesis using c by simp
  qed
  note c4 = applyToJob_finally_keeps [OF f]
  have eq: "w' = w4 \<and> hs = v_handles v2"
  proof (cases r3)
    case (Inl e)
    then show ?thesis using run t c f by (simp add: applyToJob_body_def)
  next
    case (Inr u)
    then show ?thesis using run t c f by (cases r2) (simp_all add: applyToJob_body_def)
  qed
  show "closes (events w') = closes (events w) @ release_of hs"
    using eq c2 c3 c4 by simp
  show "hs = None" if "getPlatformInstance p = Inl e" for e
    using applyToJob_try_unsupported [OF that, of env cfg job ?v0 w] t eq c3 by simp
  show "hs = (case r2' of Inl e \<Rightarrow> None | Inr h \<Rightarrow> Some h) \<and> pool_of w' = pool_of w2'"
    if "getPlatformInstance p = Inr k" "getProxy env cfg w = (proxy, w1)"
       "getBrowserForPlatform env p \<lparr>opt_proxy = proxy, opt_useExisting = None\<rparr> w1
             = (r2', w2')"
    for k proxy w1 r2' w2'
    using applyToJob_try_acquired [OF t that] eq c3 c4(2) by (cases r2') simp_all
qed

lemma updateJobStatus_closes:
  "updateJobStatus env j s w = (r, w') \<Longrightarrow> closes (events w') = closes (events w)"
  by (rule only_adds_closes [OF updateJobStatus_adds]) simp_all

lemma applyToJob_run_release:
  assumes run: "applyToJob_run env cfg job w = (r, hs, w')"
  shows "hs = applyToJob_acquired env cfg job w"
    and "closes (events w') = closes (events w) @ release_of (applyToJob_acquired env cfg job w)"
    and "handles_issued w \<Longrightarrow>
           available_for_reuse w' (the (job_platform_of env job))
             (applyToJob_acquired env cfg job w)"
proof -
  have "hs = applyToJob_acquired env cfg job w
        \<and> closes (events w') = closes (events w) @ release_of hs
        \<and> (handles_issued w \<longrightarrow> available_for_reuse w' (the (job_platform_of env job)) hs)"
  proof (cases "truthy (job_url job) \<and> (\<exists>p. job_platform_of env job = Some p)")
    case False
    then consider "\<not> truthy (job_url job)"
      | "truthy (job_url job)" "job_platform_of env job = None"
      by (cases "job_platform_of env job") auto
    then have "hs = None \<and> w' = w \<and> applyToJob_acquired env cfg job w = None"
    proof cases
      case 1
      then show ?thesis using run by (simp add: applyToJob_run_def applyToJob_acquired_def)
    next
      case 2
      then show ?thesis using run by (simp add: applyToJob_run_def applyToJob_acquired_def)
    qed
    then show ?thesis by simp
  next
    case True
    then obtain p where p: "job_platform_of env job = Some p" and u: "truthy (job_url job)"
      by blast
    obtain r0 w0 where s: "updateJobStatus env (job_id job) ''in_progress'' w = (r0, w0)"
      by (cases "updateJobStatus env (job_id job) ''in_progress'' w")
    have c0: "closes (events w0) = closes (events w)" by (rule updateJobStatus_closes [OF s])
    have p0: "pool_of w0 = pool_of w" by (rule updateJobStatus_pool [OF s])
    show ?thesis
    proof (cases r0)
      case (Inl e)
      then have "hs = None \<and> w' = w0 \<and> applyToJob_acquired env cfg job w = None"
        using run p u s by (simp add: applyToJob_run_def applyToJob_acquired_def)
      then show ?thesis using c0 by simp
    next
      case (Inr y)
      have b: "applyToJob_body env cfg p job w0 = (r, hs, w')"
        using run p u s Inr by (simp add: applyToJob_run_def)
      note b1 = applyToJob_body_release [OF b]
      show ?thesis
      proof (cases "getPlatformInstance p")
        case l: (Inl e)
        have "applyToJob_acquired env cfg job w = None"
          using p u s Inr l by (simp add: applyToJob_acquired_def)
        then show ?thesis using b1(1) b1(2) [OF l] c0 by simp
      next
        case k: (Inr k)
        obtain proxy w1 where px: "getProxy env cfg w0 = (proxy, w1)"
          by (cases "getProxy env cfg w0")
        obtain r2 w2 where
          g: "getBrowserForPlatform env p \<lparr>opt_proxy = proxy, opt_useExisting = None\<rparr> w1
                = (r2, w2)"
          by (cases "getBrowserForPlatform env p
                \<lparr>opt_proxy = proxy, opt_useExisting = None\<rparr> w1")
        note b3 = b1(3) [OF k px g]
        have acq: "applyToJob_acquired env cfg job w = hs"
          using p u s Inr k px g b3 by (cases r2) (simp_all add: applyToJob_acquired_def)
        have av: "available_for_reuse w' p hs" if wf: "handles_issued w"
        proof (cases r2)
          case (Inl e)
          then show ?thesis using b3 by simp
        next
          case r: (Inr h)
          have "handles_issued w0" using wf handles_issued_pool [OF p0] by simp
          then have "handles_issued w1"
            using handles_issued_pool [OF getProxy_pool [OF px]] by simp
          from getBrowserForPlatform_available [OF g [unfolded r] this]
          have "available_for_reuse w2 p (Some h)" .
          moreover have "pool_of w' = pool_of w2" using b3 by simp
          ultimately have "available_for_reuse w' p (Some h)"
            by (rule available_keeps [rotated])
          then show ?thesis using b3 r by simp
        qed
        show ?thesis using acq b1(1) c0 av p by simp
      qed
    qed
  qed
  then show "hs = applyToJob_acquired env cfg job w"
    and "closes (events w') = closes (events w) @ release_of (applyToJob_acquired env cfg job w)"
    and "handles_issued w \<Longrightarrow>
           available_for_reuse w' (the (job_platform_of env job))
             (applyToJob_acquired env cfg job w)"
    by blast+
qed

lemmas run_defs =
  getProxy_def getNextProxy_def getRandomProxy_def array_get_def
  getBrowserForPlatform_def create_browser_def chromium_launch_def newContext_def newPage_def
  restoreCookies_def setDefaultTimeouts_def perform_def fresh_handle_def isConnected_def
  takeScreenshot_def page_goto_def page_waitForTimeout_def close_quietly_def
  close_browser_quietly_def disconnect_def on_disconnected_def
  getPlatformInstance_def requiresLogin_def adapter_checkLogin_def adapter_login_def
  adapter_applyToJob_def store_failure_def updateJobStatus_def createApplication_def
  updateApplicationStats_def sendWebhookNotification_def telegram_sendMessage_def
  notifyError_def notifyApplicationResults_def
  toLowerCase_def lower_char_def default_to_def truthy_def Let_def
  select_jobs_def insert_job_def count_new_def

text \<open>
  Claim C7, amended.  On every exit path of \<open>BaseScraper.scrape\<close>, of \<open>scrapeJobs\<close> and of
  \<open>applyToJob\<close> (success, scrape failure, application failure) the page and the context
  that \<open>getBrowserForPlatform\<close> returned to the operation are closed, the page first and
  then the context, and these are all the close calls the operation makes: no acquired
  page is left open and the browser process is not closed.  At the exit the process is
  still connected and is the pool's entry for the platform, available for reuse.
\<close>

theorem release_on_every_exit_path:
  assumes "handles_issued w"
  shows "(case scrape_run env cfg sc kw w of
            (r, hs, w') \<Rightarrow>
              closes (events w') =
                closes (events w) @ release_of (scrape_acquired env cfg sc kw w)
              \<and> available_for_reuse w' (s_platform sc) (scrape_acquired env cfg sc kw w))
       \<and> (case service_scrapeJobs_run env cfg platform kw w of
            (r, hs, w') \<Rightarrow>
              closes (events w') =
                closes (events w) @ release_of (service_acquired env cfg platform kw w)
              \<and> available_for_reuse w' (the platform)
                  (service_acquired env cfg platform kw w))
       \<and> (case applyToJob_run env cfg job w of
            (r, hs, w') \<Rightarrow>
              closes (events w') =
                closes (events w) @ release_of (applyToJob_acquired env cfg job w)
              \<and> available_for_reuse w' (the (job_platform_of env job))
                  (applyToJob_acquired env cfg job w))"
proof (intro conjI)
  obtain r hs w' where a: "scrape_run env cfg sc kw w = (r, hs, w')"
    by (cases "scrape_run env cfg sc kw w")
  show "case scrape_run env cfg sc kw w of
            (r, hs, w') \<Rightarrow>
              closes (events w') =
                closes (events w) @ release_of (scrape_acquired env cfg sc kw w)
              \<and> available_for_reuse w' (s_platform sc) (scrape_acquired env cfg sc kw w)"
    using scrape_run_release(2) [OF a] scrape_run_release(3) [OF a assms] by (simp add: a)
next
  obtain r hs w' where a: "service_scrapeJobs_run env cfg platform kw w = (r, hs, w')"
    by (cases "service_scrapeJobs_run env cfg platform kw w")
  show "case service_scrapeJobs_run env cfg platform kw w of
            (r, hs, w') \<Rightarrow>
              closes (events w') =
                closes (events w) @ release_of (service_acquired env cfg platform kw w)
              \<and> available_for_reuse w' (the platform)
                  (service_acquired env cfg platform kw w)"
    using service_scrapeJobs_run_release(2) [OF a] service_scrapeJobs_run_release(3) [OF a assms]
    by (simp add: a)
next
  obtain r hs w' where a: "applyToJob_run env cfg job w = (r, hs, w')"
    by (cases "applyToJob_run env cfg job w")
  show "case applyToJob_run env cfg job w of
            (r, hs, w') \<Rightarrow>
              closes (events w') =
                closes (events w) @ release_of (applyToJob_acquired env cfg job w)
              \<and> available_for_reuse w' (the (job_platform_of env job))
                  (applyToJob_acquired env cfg job w)"
    using applyToJob_run_release(2) [OF a] applyToJob_run_release(3) [OF a assms]
    by (simp add: a)
qed

theorem release_on_every_exit_path_witness:
  "applyToJob_acquired quiet_env demo_config good_job (initial_world []) =
     Some \<lparr>h_browser = 0, h_context = 1, h_page = 2\<rparr>
   \<and> closes (events (snd (snd (applyToJob_run quiet_env demo_config good_job
        (initial_world []))))) = [ClosePage 2, CloseContext 1]
   \<and> browsers (snd (snd (applyToJob_run quiet_env demo_config good_job (initial_world []))))
        ''linkedin'' = Some 0"
proof -
  have a: "applyToJob_acquired quiet_env demo_config good_job (initial_world []) =
     Some \<lparr>h_browser = 0, h_context = 1, h_page = 2\<rparr>"
    by (simp add: applyToJob_acquired_def job_platform_of_def run_defs good_job_def
        quiet_env_def demo_config_def initial_world_def)
  have p: "job_platform_of quiet_env good_job = Some ''linkedin''"
    by (simp add: job_platform_of_def good_job_def truthy_def)
  have l: "toLowerCase ''linkedin'' = ''linkedin''"
    by (simp add: toLowerCase_def lower_char_def)
  have wf: "handles_issued (initial_world [])"
    by (simp add: handles_issued_def initial_world_def)
  have e: "closes (events (initial_world [])) = []"
    by (simp add: initial_world_def)
  from release_on_every_exit_path [OF wf, where env = quiet_env and cfg = demo_config
      and job = good_job and sc = indeed_scraper and kw = None and platform = None]
  show ?thesis
    by (simp add: a p l e split_beta release_of_def available_for_reuse_def)
qed

text \<open>
  The order the claim states (context, then page) is not the order of the code: in a run
  where everything succeeds the page (handle 2) is closed before the context (handle 1).
\<close>

theorem release_order_counterexample:
  "closes (events (snd (snd (scrape_run quiet_env demo_config indeed_scraper
      (Some ''backend engineer'') (initial_world []))))) = [ClosePage 2, CloseContext 1]
   \<and> [ClosePage 2, CloseContext 1] \<noteq> [CloseContext 1, ClosePage 2]"
  by (simp add: scrape_run_def scrape_try_def scrape_finally_def scrape_attempts.simps
      scraper_scrapeJobs_def base_saveJobsToDatabase_def scrape_result_of_def
      run_defs quiet_env_def demo_config_def indeed_scraper_def initial_world_def)

section \<open>Platform probe\<close>

lemma testPlatform_try_acquired:
  assumes run: "testPlatform_try env cfg n w = (r, hs, w')"
  shows "hs = testPlatform_acquired env n w"
    and "closes (events w') = closes (events w)"
    and "hs \<noteq> None \<Longrightarrow> \<exists>e. r = Inl e"
proof -
  show "closes (events w') = closes (events w)"
    by (rule only_adds_closes [OF testPlatform_try_adds [OF run]]) simp_all
  show "hs = testPlatform_acquired env n w"
    using run unfolding testPlatform_try_def testPlatform_acquired_def Let_def
    by (auto split: sum.splits prod.splits option.splits if_splits)
  show "\<exists>e. r = Inl e" if "hs \<noteq> None"
    using run that unfolding testPlatform_try_def Let_def takeScreenshot_def
    by (auto split: sum.splits prod.splits option.splits if_splits)
qed

text \<open>
  What \<open>testPlatform\<close> does: without a browser (unsupported name, or the acquisition
  throws) it returns an \<open>error\<close> result; with one, the \<open>try\<close> block ends in an error at the
  latest at its call of \<open>takeScreenshot\<close>, the \<open>catch\<close> block calls \<open>takeScreenshot\<close> too
  and throws, the \<open>finally\<close> block closes page, context and browser, and the \<open>TypeError\<close>
  leaves the function.
\<close>

lemma testPlatform_run_outcome:
  assumes run: "testPlatform_run env cfg n w = (r, hs, w')"
  shows "hs = testPlatform_acquired env n w"
    and "closes (events w') = closes (events w) @ release_all_of (testPlatform_acquired env n w)"
    and "testPlatform_acquired env n w \<noteq> None \<Longrightarrow>
           r = Inl (JsError TypeError ''takeScreenshot is not a function'')"
    and "testPlatform_acquired env n w = None \<Longrightarrow>
           \<exists>res e. r = Inr res \<and> p_platform res = n \<and> p_status res = ''error'' \<and>
             p_message res = ''Platform test failed: '' @ message e"
proof -
  obtain r1 hs1 w1 where t: "testPlatform_try env cfg n w = (r1, hs1, w1)"
    by (cases "testPlatform_try env cfg n w")
  note t1 = testPlatform_try_acquired [OF t]
  obtain r2 w2 where
    c: "(case r1 of Inl error \<Rightarrow> testPlatform_catch env n error hs1 w1
         | Inr result \<Rightarrow> (Inr result, w1)) = (r2, w2)"
    by (cases "case r1 of Inl error \<Rightarrow> testPlatform_catch env n error hs1 w1
         | Inr result \<Rightarrow> (Inr result, w1)")
  have w2: "w2 = w1"
    using c by (cases r1) (auto dest: testPlatform_catch_world)
  obtain r3 w3 where f: "testPlatform_finally env hs1 w2 = (r3, w3)"
    by (cases "testPlatform_finally env hs1 w2")
  have f': "r3 = Inr ()" "events w3 = events w2 @ release_all_of hs1"
    using testPlatform_finally_closes [OF f] by simp_all
  have eq: "r = r2" "hs = hs1" "w' = w3"
    using run t c f f' by (simp_all add: testPlatform_run_def)
  show "hs = testPlatform_acquired env n w" using eq t1(1) by simp
  show "closes (events w') = closes (events w) @ release_all_of (testPlatform_acquired env n w)"
    using eq f' w2 t1(1) t1(2) by simp
  show "r = Inl (JsError TypeError ''takeScreenshot is not a function'')"
    if "testPlatform_acquired env n w \<noteq> None"
  proof -
    have h: "hs1 \<noteq> None" using that t1(1) by simp
    then obtain e where "r1 = Inl e" using t1(3) by blast
    then show ?thesis
      using c h eq by (auto simp: testPlatform_catch_def takeScreenshot_def)
  qed
  show "\<exists>res e. r = Inr res \<and> p_platform res = n \<and> p_status res = ''error'' \<and>
             p_message res = ''Platform test failed: '' @ message e"
    if "testPlatform_acquired env n w = None"
  proof -
    have h: "hs1 = None" using that t1(1) by simp
    have "\<exists>e. r1 = Inl e"
      using t h unfolding testPlatform_try_def Let_def
      by (auto split: sum.splits prod.splits option.splits if_splits)
    then obtain e where "r1 = Inl e" by blast
    then show ?thesis
      using c h eq by (auto simp: testPlatform_catch_def)
  qed
qed

text \<open>
  Claim C10 at a supported platform, with every browser call succeeding:
  \<open>testPlatform("linkedin")\<close> throws the \<open>TypeError\<close> of the call of \<open>takeScreenshot\<close> in
  its \<open>catch\<close> block, after closing the page, the context and the browser it acquired.
\<close>

theorem testPlatform_raises_on_linkedin:
  "fst (testPlatform quiet_env demo_config ''linkedin'' (initial_world [])) =
     Inl (JsError TypeError ''takeScreenshot is not a function'')
   \<and> closes (events (snd (testPlatform quiet_env demo_config ''linkedin'' (initial_world [])))) =
     [ClosePage 2, CloseContext 1, CloseBrowser 0]"
  by (simp add: testPlatform_def testPlatform_run_def testPlatform_try_def
      testPlatform_catch_def testPlatform_finally_def run_defs quiet_env_def demo_config_def
      initial_world_def)

lemma page_openings_simps [simp]:
  "page_openings [] = []"
  "page_openings (e # es) =
     (case e of NewPage c \<Rightarrow> e # page_openings es | _ \<Rightarrow> page_openings es)"
  by (simp_all add: page_openings_def split: event.splits)

lemma chromium_launch_events:
  "chromium_launch env k p w = (r, w') \<Longrightarrow> events w' = events w @ [Launch k p]"
  by (auto simp: chromium_launch_def perform_def fresh_handle_def split: option.splits)

lemma newContext_events:
  "newContext env b w = (r, w') \<Longrightarrow> events w' = events w @ [NewContext b]"
  by (auto simp: newContext_def perform_def fresh_handle_def split: option.splits)

lemma newPage_events:
  "newPage env c w = (r, w') \<Longrightarrow> events w' = events w @ [NewPage c]"
  by (auto simp: newPage_def perform_def fresh_handle_def split: option.splits)

lemma setDefaultTimeouts_events:
  "setDefaultTimeouts env p w = (r, w') \<Longrightarrow> events w' = events w @ [SetTimeouts p]"
  by (auto simp: setDefaultTimeouts_def perform_def split: option.splits)

lemma create_browser_page_openings:
  "create_browser env k p w = (r, w') \<Longrightarrow>
     length (page_openings (events w')) \<le> Suc (length (page_openings (events w)))
     \<and> attempt_pages (events w') = attempt_pages (events w)"
  unfolding create_browser_def
  by (auto split: prod.splits sum.splits simp: restoreCookies_events
      dest!: chromium_launch_events newContext_events newPage_events setDefaultTimeouts_events)

lemma getBrowserForPlatform_page_openings:
  "getBrowserForPlatform env platform opts w = (r, w') \<Longrightarrow>
     length (page_openings (events w')) \<le> Suc (length (page_openings (events w)))
     \<and> attempt_pages (events w') = attempt_pages (events w)"
  unfolding getBrowserForPlatform_def Let_def
  by (auto split: prod.splits sum.splits option.splits if_splits
      dest!: create_browser_page_openings newContext_events newPage_events)

section \<open>Retries of a scrape\<close>

lemma scrape_attempts_summary:
  assumes "scrape_attempts env sc page k jobs w = (r, w')"
  shows "\<exists>n. n \<le> s_maxRetries sc - k
           \<and> attempt_pages (events w') = attempt_pages (events w) @ replicate n page
           \<and> ((\<exists>e. r = Inl e) \<and> (\<forall>h. fails env h (WaitForTimeout page) = None)
                 \<longrightarrow> n = s_maxRetries sc - k)"
    and "page_openings (events w') = page_openings (events w)"
    and "closes (events w') = closes (events w)"
    and "\<exists>n. n \<le> s_maxRetries sc - k
           \<and> attempt_pages (events w') = attempt_pages (events w) @ replicate n page"
proof -
  obtain xs n where
    x: "events w' = events w @ xs
        \<and> list_all (\<lambda>e. e = ScrapeJobs page \<or> e = WaitForTimeout page) xs
        \<and> attempt_pages xs = replicate n page \<and> n \<le> s_maxRetries sc - k
        \<and> ((\<exists>e. r = Inl e) \<and> (\<forall>h. fails env h (WaitForTimeout page) = None)
              \<longrightarrow> n = s_maxRetries sc - k \<and> 0 < n)"
    using scrape_attempts_trace [OF assms] by (elim exE) (rule that)
  have x1: "events w' = events w @ xs" by (rule conjunct1 [OF x])
  have x2: "list_all (\<lambda>e. e = ScrapeJobs page \<or> e = WaitForTimeout page) xs"
    by (rule conjunct1 [OF conjunct2 [OF x]])
  have x3: "attempt_pages xs = replicate n page"
    by (rule conjunct1 [OF conjunct2 [OF conjunct2 [OF x]]])
  have x4: "n \<le> s_maxRetries sc - k"
    by (rule conjunct1 [OF conjunct2 [OF conjunct2 [OF conjunct2 [OF x]]]])
  have x5: "(\<exists>e. r = Inl e) \<and> (\<forall>h. fails env h (WaitForTimeout page) = None)
              \<longrightarrow> n = s_maxRetries sc - k"
    using conjunct2 [OF conjunct2 [OF conjunct2 [OF conjunct2 [OF x]]]] by (intro impI) (drule (1) mp, erule conjunct1)
  have a: "attempt_pages (events w') = attempt_pages (events w) @ replicate n page"
    unfolding x1 attempt_pages_append x3 ..
  show "\<exists>n. n \<le> s_maxRetries sc - k
           \<and> attempt_pages (events w') = attempt_pages (events w) @ replicate n page
           \<and> ((\<exists>e. r = Inl e) \<and> (\<forall>h. fails env h (WaitForTimeout page) = None)
                 \<longrightarrow> n = s_maxRetries sc - k)"
    by (rule exI [of _ n]) (rule conjI [OF x4 conjI [OF a x5]])
  have k: "list_all (\<lambda>e. kind e \<in> {PageUse}) xs"
    using x2 by (induction xs) auto
  show "page_openings (events w') = page_openings (events w)"
    unfolding x1 page_openings_append using page_openings_none [OF k] by simp
  show "\<exists>n. n \<le> s_maxRetries sc - k
           \<and> attempt_pages (events w') = attempt_pages (events w) @ replicate n page"
    by (rule exI [of _ n]) (rule conjI [OF x4 a])
  show "closes (events w') = closes (events w)"
    unfolding x1 using closes_none [OF k] by simp
qed

lemma base_save_attempts:
  assumes "base_saveJobsToDatabase env P js w = (r, w')"
  shows "attempt_pages (events w') = attempt_pages (events w) \<and>
     page_openings (events w') = page_openings (events w)"
proof -
  have a: "only_adds {Store} w w'" by (rule base_saveJobsToDatabase_adds [OF assms])
  show ?thesis
    using only_adds_attempt_pages [OF a] only_adds_page_openings [OF a] by simp
qed

lemma release_of_quiet [simp]:
  "attempt_pages (release_of hs) = []" "page_openings (release_of hs) = []"
  by (simp_all add: release_of_def page_openings_def split: option.splits)

lemma scrape_finally_attempts:
  assumes "scrape_finally env hs w = (r, w')"
  shows "attempt_pages (events w') = attempt_pages (events w) \<and>
     page_openings (events w') = page_openings (events w)"
  using scrape_finally_closes [OF assms] by simp

lemma scrape_try_attempts:
  assumes run: "scrape_try env cfg sc w = (r, hs, w')"
  shows "(\<exists>n. n \<le> s_maxRetries sc \<and>
            attempt_pages (events w') =
              attempt_pages (events w) @ replicate n (case hs of Some h \<Rightarrow> h_page h | None \<Rightarrow> 0))
         \<and> length (page_openings (events w')) \<le> Suc (length (page_openings (events w)))"
proof -
  obtain proxy w1 where p: "getProxy env cfg w = (proxy, w1)"
    by (cases "getProxy env cfg w")
  have e1: "events w1 = events w" by (rule getProxy_events [OF p])
  obtain r2 w2 where
    g: "getBrowserForPlatform env (s_platform sc)
          \<lparr>opt_proxy = proxy, opt_useExisting = Some False\<rparr> w1 = (r2, w2)"
    by (cases "getBrowserForPlatform env (s_platform sc)
          \<lparr>opt_proxy = proxy, opt_useExisting = Some False\<rparr> w1")
  note g2 = getBrowserForPlatform_page_openings [OF g, unfolded e1]
  show ?thesis
  proof (cases r2)
    case (Inl e)
    then have "hs = None" "w' = w2"
      using run p g by (simp_all add: scrape_try_def)
    then show ?thesis using g2 by (intro conjI exI [of _ 0]) simp_all
  next
    case (Inr h)
    obtain r3 w3 where t: "setDefaultTimeouts env (h_page h) w2 = (r3, w3)"
      by (cases "setDefaultTimeouts env (h_page h) w2")
    have e3: "events w3 = events w2 @ [SetTimeouts (h_page h)]"
      by (rule setDefaultTimeouts_events [OF t])
    show ?thesis
    proof (cases r3)
      case l3: (Inl e)
      then have "hs = Some h" "w' = w3"
        using run p g Inr t by (simp_all add: scrape_try_def Let_def)
      then show ?thesis using g2 e3 by (intro conjI exI [of _ 0]) simp_all
    next
      case r3: (Inr u)
      obtain r4 w4 where a: "scrape_attempts env sc (h_page h) 0 [] w3 = (r4, w4)"
        by (cases "scrape_attempts env sc (h_page h) 0 [] w3")
      obtain n where
        n0: "n \<le> s_maxRetries sc - 0"
        and n2: "attempt_pages (events w4) = attempt_pages (events w3) @ replicate n (h_page h)"
        using scrape_attempts_summary(4) [OF a] by (elim exE conjE) (rule that)
      have n1: "n \<le> s_maxRetries sc" using n0 by simp
      note n = n1 n2 scrape_attempts_summary(2) [OF a]
      have base: "attempt_pages (events w4) = attempt_pages (events w) @ replicate n (h_page h)"
        "length (page_openings (events w4)) \<le> Suc (length (page_openings (events w)))"
        using n g2 e3 by simp_all
      show ?thesis
      proof (cases r4)
        case l4: (Inl e)
        then have "hs = Some h" "w' = w4"
          using run p g Inr t r3 a by (simp_all add: scrape_try_def Let_def)
        then show ?thesis using base n(1) by (intro conjI exI [of _ n]) simp_all
      next
        case r4: (Inr js)
        obtain r5 w5 where s: "base_saveJobsToDatabase env (s_platform sc) js w4 = (r5, w5)"
          by (cases "base_saveJobsToDatabase env (s_platform sc) js w4")
        have "hs = Some h" "w' = w5"
          using run p g Inr t r3 a r4 s
          by (auto simp: scrape_try_def Let_def split: sum.splits)
        then show ?thesis
          using base n(1) base_save_attempts [OF s] by (intro conjI exI [of _ n]) simp_all
      qed
    qed
  qed
qed

lemma scrape_run_attempts:
  assumes run: "scrape_run env cfg sc kw w = (r, hs, w')"
  shows "(\<exists>n. n \<le> s_maxRetries sc \<and>
            attempt_pages (events w') =
              attempt_pages (events w) @ replicate n (case hs of Some h \<Rightarrow> h_page h | None \<Rightarrow> 0))
         \<and> length (page_openings (events w')) \<le> Suc (length (page_openings (events w)))"
proof (cases "truthy kw")
  case False
  then have "w' = w" using run by (simp add: scrape_run_def)
  then show ?thesis by (intro conjI exI [of _ 0]) simp_all
next
  case True
  obtain r1 hs1 w1 where t: "scrape_try env cfg sc w = (r1, hs1, w1)"
    by (cases "scrape_try env cfg sc w")
  obtain r3 w3 where f: "scrape_finally env hs1 w1 = (r3, w3)"
    by (cases "scrape_finally env hs1 w1")
  have r3: "r3 = Inr ()" using scrape_finally_closes [OF f] by simp
  have "w' = w3 \<and> hs = hs1"
    using run True t f r3
    by (cases r1) (simp_all add: scrape_run_def)
  then have eq: "w' = w3" "hs = hs1" by simp_all
  from scrape_try_attempts [OF t] obtain n where
    n: "n \<le> s_maxRetries sc"
       "attempt_pages (events w1) =
          attempt_pages (events w) @ replicate n (case hs1 of Some h \<Rightarrow> h_page h | None \<Rightarrow> 0)"
       "length (page_openings (events w1)) \<le> Suc (length (page_openings (events w)))"
    by blast
  note q = scrape_finally_attempts [OF f]
  show ?thesis
    unfolding eq using n q by (intro conjI exI [of _ n]) simp_all
qed

lemma scrape_attempts_step:
  assumes "k < s_maxRetries sc"
  shows "fails env (events w) (ScrapeJobs page) = None \<Longrightarrow>
           scrape_attempts env sc page k jobs w =
             (Inr (extracted env (events w)), w\<lparr>events := events w @ [ScrapeJobs page]\<rparr>)"
    and "fails env (events w) (ScrapeJobs page) = Some m \<Longrightarrow> s_maxRetries sc \<le> k + 1 \<Longrightarrow>
           scrape_attempts env sc page k jobs w =
             (Inl (JsError Error m), w\<lparr>events := events w @ [ScrapeJobs page]\<rparr>)"
    and "fails env (events w) (ScrapeJobs page) = Some m \<Longrightarrow> k + 1 < s_maxRetries sc \<Longrightarrow>
         fails env (events w @ [ScrapeJobs page]) (WaitForTimeout page) = None \<Longrightarrow>
           scrape_attempts env sc page k jobs w =
             scrape_attempts env sc page (k + 1) jobs
               (w\<lparr>events := events w @ [ScrapeJobs page, WaitForTimeout page]\<rparr>)"
  using assms
  by (simp_all add: scrape_attempts.simps [of env sc page k] scraper_scrapeJobs_def
      page_waitForTimeout_def perform_def)

lemma attempts_unique:
  "xs @ replicate n p = xs @ replicate m (p::nat) \<Longrightarrow> n = m"
  by (drule arg_cong [where f = length]) simp

lemma scrape_attempts_at_least_one:
  assumes k: "k < s_maxRetries sc" and run: "scrape_attempts env sc page k jobs w = (r, w')"
  shows "\<exists>n. 1 \<le> n \<and> attempt_pages (events w') = attempt_pages (events w) @ replicate n page"
proof -
  let ?w1 = "w\<lparr>events := events w @ [ScrapeJobs page]\<rparr>"
  obtain r1 w1 where s: "scraper_scrapeJobs env page w = (r1, w1)"
    by (cases "scraper_scrapeJobs env page w")
  have w1: "w1 = ?w1" using s by (auto simp: scraper_scrapeJobs_def perform_def split: option.splits)
  have one: "attempt_pages (events ?w1) = attempt_pages (events w) @ replicate 1 page"
    by simp
  show ?thesis
  proof (cases r1)
    case (Inr found)
    then have "w' = ?w1"
      using run k s w1 by (simp add: scrape_attempts.simps [of env sc page k])
    then show ?thesis using one by (intro exI [of _ 1]) simp
  next
    case (Inl error)
    show ?thesis
    proof (cases "k + 1 \<ge> s_maxRetries sc")
      case True
      then have "w' = ?w1"
        using run k s w1 Inl by (simp add: scrape_attempts.simps [of env sc page k])
      then show ?thesis using one by (intro exI [of _ 1]) simp
    next
      case False
      let ?w2 = "?w1\<lparr>events := events ?w1 @ [WaitForTimeout page]\<rparr>"
      obtain r2 w2 where t: "page_waitForTimeout env page ?w1 = (r2, w2)"
        by (cases "page_waitForTimeout env page ?w1")
      have w2: "w2 = ?w2"
        using t by (auto simp: page_waitForTimeout_def perform_def split: option.splits)
      have two: "attempt_pages (events ?w2) = attempt_pages (events w) @ replicate 1 page"
        by simp
      show ?thesis
      proof (cases r2)
        case l2: (Inl e)
        then have "w' = ?w2"
          using run k s w1 Inl False t w2
          by (simp add: scrape_attempts.simps [of env sc page k])
        then show ?thesis using two by (intro exI [of _ 1]) simp
      next
        case r2: (Inr u)
        have rec: "scrape_attempts env sc page (k + 1) jobs ?w2 = (r, w')"
          using run k s w1 Inl False t w2 r2
          by (simp add: scrape_attempts.simps [of env sc page k])
        obtain n where
          "attempt_pages (events w') = attempt_pages (events ?w2) @ replicate n page"
          using scrape_attempts_summary(4) [OF rec] by (elim exE conjE) (rule that)
        then have "attempt_pages (events w') =
                     attempt_pages (events w) @ replicate (Suc n) page"
          by (simp add: replicate_append_same)
        then show ?thesis by (intro exI [of _ "Suc n"]) simp
      qed
    qed
  qed
qed

lemma scrape_attempts_all_fail:
  assumes af: "\<And>h. fails env h (ScrapeJobs page) \<noteq> None"
    and wok: "\<And>h. fails env h (WaitForTimeout page) = None"
  shows "scrape_attempts env sc page k jobs w = (r, w') \<Longrightarrow>
           attempt_pages (events w') =
             attempt_pages (events w) @ replicate (s_maxRetries sc - k) page
           \<and> (k < s_maxRetries sc \<longrightarrow> (\<exists>e. r = Inl e))"
proof (induction "s_maxRetries sc - k" arbitrary: k w)
  case 0
  then have "\<not> k < s_maxRetries sc" by simp
  then have "w' = w" using "0.prems" by (simp add: scrape_attempts.simps [of env sc page k])
  then show ?case using 0 by simp
next
  case (Suc d)
  then have k: "k < s_maxRetries sc" by simp
  obtain m where m: "fails env (events w) (ScrapeJobs page) = Some m"
    using af [of "events w"] by blast
  show ?case
  proof (cases "s_maxRetries sc \<le> k + 1")
    case True
    have "scrape_attempts env sc page k jobs w =
            (Inl (JsError Error m), w\<lparr>events := events w @ [ScrapeJobs page]\<rparr>)"
      by (rule scrape_attempts_step(2) [OF k m True])
    then have "r = Inl (JsError Error m)" "w' = w\<lparr>events := events w @ [ScrapeJobs page]\<rparr>"
      using Suc.prems by simp_all
    moreover have "s_maxRetries sc - k = 1" using k True by simp
    ultimately show ?thesis by simp
  next
    case False
    then have more: "k + 1 < s_maxRetries sc" by simp
    let ?w2 = "w\<lparr>events := events w @ [ScrapeJobs page, WaitForTimeout page]\<rparr>"
    have "scrape_attempts env sc page k jobs w = scrape_attempts env sc page (k + 1) jobs ?w2"
      by (rule scrape_attempts_step(3) [OF k m more wok])
    then have rec: "scrape_attempts env sc page (k + 1) jobs ?w2 = (r, w')"
      using Suc.prems by simp
    have d: "d = s_maxRetries sc - (k + 1)" using Suc.hyps(2) by simp
    from Suc.hyps(1) [OF d rec] more
    have "attempt_pages (events w') =
            attempt_pages (events ?w2) @ replicate (s_maxRetries sc - (k + 1)) page"
      and e: "\<exists>e. r = Inl e"
      by simp_all
    moreover have "s_maxRetries sc - k = Suc (s_maxRetries sc - (k + 1))" using k by simp
    ultimately show ?thesis by (simp add: replicate_append_same)
  qed
qed

lemma scrape_attempts_retried:
  assumes f: "fails env (events w) (ScrapeJobs page) \<noteq> None"
    and wok: "fails env (events w @ [ScrapeJobs page]) (WaitForTimeout page) = None"
    and more: "k + 1 < s_maxRetries sc"
    and run: "scrape_attempts env sc page k jobs w = (r, w')"
  shows "\<exists>n. 2 \<le> n \<and> attempt_pages (events w') = attempt_pages (events w) @ replicate n page"
proof -
  obtain m where m: "fails env (events w) (ScrapeJobs page) = Some m" using f by blast
  have k: "k < s_maxRetries sc" using more by simp
  let ?w2 = "w\<lparr>events := events w @ [ScrapeJobs page, WaitForTimeout page]\<rparr>"
  have "scrape_attempts env sc page k jobs w = scrape_attempts env sc page (k + 1) jobs ?w2"
    by (rule scrape_attempts_step(3) [OF k m more wok])
  then have rec: "scrape_attempts env sc page (k + 1) jobs ?w2 = (r, w')"
    using run by simp
  obtain n where n: "1 \<le> n"
    "attempt_pages (events w') = attempt_pages (events ?w2) @ replicate n page"
    using scrape_attempts_at_least_one [OF more rec] by (elim exE conjE) (rule that)
  have "attempt_pages (events w') = attempt_pages (events w) @ replicate (Suc n) page"
    using n(2) by (simp add: replicate_append_same)
  then show ?thesis using n(1) by (intro exI [of _ "Suc n"]) simp
qed

lemma scrape_run_all_fail:
  assumes run: "scrape_run env cfg sc kw w = (r, hs, w')"
    and acq: "scrape_acquired env cfg sc kw w = Some h"
    and af: "\<And>hh. fails env hh (ScrapeJobs (h_page h)) \<noteq> None"
    and wok: "\<And>hh. fails env hh (WaitForTimeout (h_page h)) = None"
    and tok: "\<And>hh. fails env hh (SetTimeouts (h_page h)) = None"
  shows "attempt_pages (events w') =
           attempt_pages (events w) @ replicate (s_maxRetries sc) (h_page h)"
    and "0 < s_maxRetries sc \<Longrightarrow> \<exists>e. r = Inl e"
proof -
  have kw: "truthy kw" using acq by (cases "truthy kw") (simp_all add: scrape_acquired_def)
  obtain proxy w1 where p: "getProxy env cfg w = (proxy, w1)"
    by (cases "getProxy env cfg w")
  have e1: "events w1 = events w" by (rule getProxy_events [OF p])
  obtain r2 w2 where
    g: "getBrowserForPlatform env (s_platform sc)
          \<lparr>opt_proxy = proxy, opt_useExisting = Some False\<rparr> w1 = (r2, w2)"
    by (cases "getBrowserForPlatform env (s_platform sc)
          \<lparr>opt_proxy = proxy, opt_useExisting = Some False\<rparr> w1")
  have r2: "r2 = Inr h"
    using acq kw p g by (cases r2) (simp_all add: scrape_acquired_def)
  have a2: "attempt_pages (events w2) = attempt_pages (events w)"
    using getBrowserForPlatform_page_openings [OF g] e1 by simp
  let ?w3 = "w2\<lparr>events := events w2 @ [SetTimeouts (h_page h)]\<rparr>"
  have t: "setDefaultTimeouts env (h_page h) w2 = (Inr (), ?w3)"
    by (simp add: setDefaultTimeouts_def perform_def tok)
  have a3: "attempt_pages (events ?w3) = attempt_pages (events w)" using a2 by simp
  obtain r4 w4 where a: "scrape_attempts env sc (h_page h) 0 [] ?w3 = (r4, w4)"
    by (cases "scrape_attempts env sc (h_page h) 0 [] ?w3")
  from scrape_attempts_all_fail [OF af wok a]
  have a4: "attempt_pages (events w4) =
              attempt_pages (events w) @ replicate (s_maxRetries sc) (h_page h)"
    and e4: "0 < s_maxRetries sc \<longrightarrow> (\<exists>e. r4 = Inl e)"
    using a3 by simp_all
  obtain r1 hs1 w5 where tr: "scrape_try env cfg sc w = (r1, hs1, w5)"
    by (cases "scrape_try env cfg sc w")
  have a5: "attempt_pages (events w5) =
              attempt_pages (events w) @ replicate (s_maxRetries sc) (h_page h)
            \<and> (0 < s_maxRetries sc \<longrightarrow> (\<exists>e. r1 = Inl e))"
  proof (cases r4)
    case (Inl e)
    then have "w5 = w4" "r1 = Inl e"
      using tr p g r2 t a by (simp_all add: scrape_try_def Let_def)
    then show ?thesis using a4 by simp
  next
    case (Inr js)
    then have z: "\<not> 0 < s_maxRetries sc" using e4 by auto
    obtain r6 w6 where sv: "base_saveJobsToDatabase env (s_platform sc) js w4 = (r6, w6)"
      by (cases "base_saveJobsToDatabase env (s_platform sc) js w4")
    have "w5 = w6"
      using tr p g r2 t a Inr sv by (auto simp: scrape_try_def Let_def split: sum.splits)
    then show ?thesis using a4 base_save_attempts [OF sv] z by simp
  qed
  obtain r7 w7 where f: "scrape_finally env hs1 w5 = (r7, w7)"
    by (cases "scrape_finally env hs1 w5")
  have r7: "r7 = Inr ()" using scrape_finally_closes [OF f] by simp
  have eq: "w' = w7"
    using run kw tr f r7 by (cases r1) (simp_all add: scrape_run_def)
  show "attempt_pages (events w') =
           attempt_pages (events w) @ replicate (s_maxRetries sc) (h_page h)"
    using eq a5 scrape_finally_attempts [OF f] by simp
  show "\<exists>e. r = Inl e" if pos: "0 < s_maxRetries sc"
  proof -
    have "\<exists>e. r1 = Inl e" using a5 pos by simp
    then obtain e where "r1 = Inl e" by (elim exE)
    then show ?thesis using run kw tr f r7 by (auto simp: scrape_run_def)
  qed
qed

text \<open>
  Claim C8, amended.  A scrape attempt that fails at the orchestration layer is retried
  (after a wait that succeeds, while the budget is not used up), a run makes at most
  \<open>maxRetries\<close> attempts, exactly \<open>maxRetries\<close> when every attempt fails and the waits
  succeed (the run then ends with the error), and one only when the first succeeds.  All
  attempts are made on the one page the run acquired, within the same browser process:
  the loop opens no page and closes nothing, and a run opens at most one page.
\<close>

theorem scrape_retries_reuse_page:
  "(case scrape_run env cfg sc kw w of
      (r, hs, w') \<Rightarrow>
        (\<exists>n. n \<le> s_maxRetries sc \<and>
           attempt_pages (events w') =
             attempt_pages (events w) @
             replicate n (case scrape_acquired env cfg sc kw w of
                            Some h \<Rightarrow> h_page h | None \<Rightarrow> 0))
        \<and> length (page_openings (events w')) \<le> Suc (length (page_openings (events w)))
        \<and> (\<forall>h. scrape_acquired env cfg sc kw w = Some h \<and>
               (\<forall>hh. fails env hh (ScrapeJobs (h_page h)) \<noteq> None) \<and>
               (\<forall>hh. fails env hh (WaitForTimeout (h_page h)) = None) \<and>
               (\<forall>hh. fails env hh (SetTimeouts (h_page h)) = None)
               \<longrightarrow> attempt_pages (events w') =
                     attempt_pages (events w) @ replicate (s_maxRetries sc) (h_page h)
                   \<and> (0 < s_maxRetries sc \<longrightarrow> (\<exists>e. r = Inl e))))
   \<and> (case scrape_attempts env sc page 0 [] w of
      (r, w') \<Rightarrow>
        (\<exists>n. n \<le> s_maxRetries sc \<and>
           attempt_pages (events w') = attempt_pages (events w) @ replicate n page \<and>
           ((\<forall>h. fails env h (ScrapeJobs page) \<noteq> None) \<and>
            (\<forall>h. fails env h (WaitForTimeout page) = None)
              \<longrightarrow> n = s_maxRetries sc \<and> (0 < s_maxRetries sc \<longrightarrow> (\<exists>e. r = Inl e))) \<and>
           (fails env (events w) (ScrapeJobs page) \<noteq> None \<and>
            fails env (events w @ [ScrapeJobs page]) (WaitForTimeout page) = None \<and>
            1 < s_maxRetries sc
              \<longrightarrow> 2 \<le> n) \<and>
           (fails env (events w) (ScrapeJobs page) = None \<and> 0 < s_maxRetries sc
              \<longrightarrow> n = 1 \<and> r = Inr (extracted env (events w))) \<and>
           ((\<exists>e. r = Inl e) \<and> (\<forall>h. fails env h (WaitForTimeout page) = None)
              \<longrightarrow> n = s_maxRetries sc))
        \<and> page_openings (events w') = page_openings (events w)
        \<and> closes (events w') = closes (events w))"
proof (intro conjI)
  obtain r hs w' where a: "scrape_run env cfg sc kw w = (r, hs, w')"
    by (cases "scrape_run env cfg sc kw w")
  show "case scrape_run env cfg sc kw w of
      (r, hs, w') \<Rightarrow>
        (\<exists>n. n \<le> s_maxRetries sc \<and>
           attempt_pages (events w') =
             attempt_pages (events w) @
             replicate n (case scrape_acquired env cfg sc kw w of
                            Some h \<Rightarrow> h_page h | None \<Rightarrow> 0))
        \<and> length (page_openings (events w')) \<le> Suc (length (page_openings (events w)))
        \<and> (\<forall>h. scrape_acquired env cfg sc kw w = Some h \<and>
               (\<forall>hh. fails env hh (ScrapeJobs (h_page h)) \<noteq> None) \<and>
               (\<forall>hh. fails env hh (WaitForTimeout (h_page h)) = None) \<and>
               (\<forall>hh. fails env hh (SetTimeouts (h_page h)) = None)
               \<longrightarrow> attempt_pages (events w') =
                     attempt_pages (events w) @ replicate (s_maxRetries sc) (h_page h)
                   \<and> (0 < s_maxRetries sc \<longrightarrow> (\<exists>e. r = Inl e)))"
    unfolding a prod.case
  proof (intro conjI allI impI)
    show "\<exists>n\<le>s_maxRetries sc.
       attempt_pages (events w') =
       attempt_pages (events w) @
       replicate n (case scrape_acquired env cfg sc kw w of None \<Rightarrow> 0 | Some h \<Rightarrow> h_page h)"
      using scrape_run_attempts [OF a] scrape_run_release(1) [OF a] by simp
    show "length (page_openings (events w')) \<le> Suc (length (page_openings (events w)))"
      using scrape_run_attempts [OF a] by simp
  next
    fix h
    assume h: "scrape_acquired env cfg sc kw w = Some h \<and>
               (\<forall>hh. fails env hh (ScrapeJobs (h_page h)) \<noteq> None) \<and>
               (\<forall>hh. fails env hh (WaitForTimeout (h_page h)) = None) \<and>
               (\<forall>hh. fails env hh (SetTimeouts (h_page h)) = None)"
    then have acq: "scrape_acquired env cfg sc kw w = Some h"
      and af: "\<And>hh. fails env hh (ScrapeJobs (h_page h)) \<noteq> None"
      and wok: "\<And>hh. fails env hh (WaitForTimeout (h_page h)) = None"
      and tok: "\<And>hh. fails env hh (SetTimeouts (h_page h)) = None"
      by simp_all
    show "attempt_pages (events w') =
            attempt_pages (events w) @ replicate (s_maxRetries sc) (h_page h)"
      by (rule scrape_run_all_fail(1) [OF a acq af wok tok])
    show "\<exists>e. r = Inl e" if "0 < s_maxRetries sc"
      by (rule scrape_run_all_fail(2) [OF a acq af wok tok that])
  qed
next
  obtain r w' where a: "scrape_attempts env sc page 0 [] w = (r, w')"
    by (cases "scrape_attempts env sc page 0 [] w")
  obtain n where n0: "n \<le> s_maxRetries sc - 0"
    and n: "attempt_pages (events w') = attempt_pages (events w) @ replicate n page"
    using scrape_attempts_summary(4) [OF a] by (elim exE conjE) (rule that)
  have n1: "n \<le> s_maxRetries sc" using n0 by simp
  have all: "n = s_maxRetries sc \<and> (0 < s_maxRetries sc \<longrightarrow> (\<exists>e. r = Inl e))"
    if "\<forall>h. fails env h (ScrapeJobs page) \<noteq> None"
       "\<forall>h. fails env h (WaitForTimeout page) = None"
  proof -
    have af: "\<And>h. fails env h (ScrapeJobs page) \<noteq> None" using that(1) by simp
    have wok: "\<And>h. fails env h (WaitForTimeout page) = None" using that(2) by simp
    from scrape_attempts_all_fail [OF af wok a]
    have "attempt_pages (events w') =
            attempt_pages (events w) @ replicate (s_maxRetries sc - 0) page"
      and e: "0 < s_maxRetries sc \<longrightarrow> (\<exists>e. r = Inl e)"
      by blast+
    then have "n = s_maxRetries sc - 0" using n attempts_unique by metis
    then show ?thesis using e by simp
  qed
  have retried: "2 \<le> n"
    if h1: "fails env (events w) (ScrapeJobs page) \<noteq> None"
      and h2: "fails env (events w @ [ScrapeJobs page]) (WaitForTimeout page) = None"
      and h3: "1 < s_maxRetries sc"
  proof -
    have more: "0 + 1 < s_maxRetries sc" using h3 by simp
    obtain m where m: "2 \<le> m"
      "attempt_pages (events w') = attempt_pages (events w) @ replicate m page"
      using scrape_attempts_retried [OF h1 h2 more a] by (elim exE conjE) (rule that)
    have "n = m" using n m(2) attempts_unique by metis
    then show ?thesis using m(1) by simp
  qed
  have first: "n = 1 \<and> r = Inr (extracted env (events w))"
    if "fails env (events w) (ScrapeJobs page) = None" "0 < s_maxRetries sc"
  proof -
    have "scrape_attempts env sc page 0 [] w =
            (Inr (extracted env (events w)), w\<lparr>events := events w @ [ScrapeJobs page]\<rparr>)"
      by (rule scrape_attempts_step(1) [OF that(2) that(1)])
    then have r: "r = Inr (extracted env (events w))"
      and "w' = w\<lparr>events := events w @ [ScrapeJobs page]\<rparr>"
      using a by simp_all
    then have "attempt_pages (events w') = attempt_pages (events w) @ replicate 1 page"
      by simp
    then have "n = 1" using n attempts_unique by metis
    then show ?thesis using r by simp
  qed
  have old: "n = s_maxRetries sc"
    if h1: "\<exists>e. r = Inl e" and h2: "\<forall>h. fails env h (WaitForTimeout page) = None"
  proof -
    obtain m where m: "attempt_pages (events w') = attempt_pages (events w) @ replicate m page"
      "(\<exists>e. r = Inl e) \<and> (\<forall>h. fails env h (WaitForTimeout page) = None)
          \<longrightarrow> m = s_maxRetries sc - 0"
      using scrape_attempts_summary(1) [OF a] by (elim exE conjE) (rule that)
    have "m = s_maxRetries sc" using m(2) h1 h2 by simp
    moreover have "n = m" using n m(1) attempts_unique by metis
    ultimately show ?thesis by simp
  qed
  have body: "n \<le> s_maxRetries sc \<and>
           attempt_pages (events w') = attempt_pages (events w) @ replicate n page \<and>
           ((\<forall>h. fails env h (ScrapeJobs page) \<noteq> None) \<and>
            (\<forall>h. fails env h (WaitForTimeout page) = None)
              \<longrightarrow> n = s_maxRetries sc \<and> (0 < s_maxRetries sc \<longrightarrow> (\<exists>e. r = Inl e))) \<and>
           (fails env (events w) (ScrapeJobs page) \<noteq> None \<and>
            fails env (events w @ [ScrapeJobs page]) (WaitForTimeout page) = None \<and>
            1 < s_maxRetries sc
              \<longrightarrow> 2 \<le> n) \<and>
           (fails env (events w) (ScrapeJobs page) = None \<and> 0 < s_maxRetries sc
              \<longrightarrow> n = 1 \<and> r = Inr (extracted env (events w))) \<and>
           ((\<exists>e. r = Inl e) \<and> (\<forall>h. fails env h (WaitForTimeout page) = None)
              \<longrightarrow> n = s_maxRetries sc)"
    using n1 n all retried first old by blast
  show "case scrape_attempts env sc page 0 [] w of
      (r, w') \<Rightarrow>
        (\<exists>n. n \<le> s_maxRetries sc \<and>
           attempt_pages (events w') = attempt_pages (events w) @ replicate n page \<and>
           ((\<forall>h. fails env h (ScrapeJobs page) \<noteq> None) \<and>
            (\<forall>h. fails env h (WaitForTimeout page) = None)
              \<longrightarrow> n = s_maxRetries sc \<and> (0 < s_maxRetries sc \<longrightarrow> (\<exists>e. r = Inl e))) \<and>
           (fails env (events w) (ScrapeJobs page) \<noteq> None \<and>
            fails env (events w @ [ScrapeJobs page]) (WaitForTimeout page) = None \<and>
            1 < s_maxRetries sc
              \<longrightarrow> 2 \<le> n) \<and>
           (fails env (events w) (ScrapeJobs page) = None \<and> 0 < s_maxRetries sc
              \<longrightarrow> n = 1 \<and> r = Inr (extracted env (events w))) \<and>
           ((\<exists>e. r = Inl e) \<and> (\<forall>h. fails env h (WaitForTimeout page) = None)
              \<longrightarrow> n = s_maxRetries sc))
        \<and> page_openings (events w') = page_openings (events w)
        \<and> closes (events w') = closes (events w)"
    unfolding a prod.case
    by (intro conjI exI [of _ n] body scrape_attempts_summary(2) [OF a]
        scrape_attempts_summary(3) [OF a])
qed

theorem scrape_retries_reuse_page_witness:
  "scrape_attempts failing_env indeed_scraper 2 0 [] (initial_world []) =
     (Inl (JsError Error ''timeout''),
      (initial_world [])\<lparr>events := [ScrapeJobs 2, WaitForTimeout 2, ScrapeJobs 2,
                                     WaitForTimeout 2, ScrapeJobs 2]\<rparr>)
   \<and> attempt_pages [ScrapeJobs 2, WaitForTimeout 2, ScrapeJobs 2, WaitForTimeout 2,
                    ScrapeJobs 2] = replicate (s_maxRetries indeed_scraper) 2
   \<and> (\<forall>h. fails failing_env h (ScrapeJobs 2) \<noteq> None)
   \<and> (\<forall>h. fails failing_env h (WaitForTimeout 2) = None)"
  using scrape_retries_reuse_page [where env = failing_env and sc = indeed_scraper
      and page = 2 and w = "initial_world []" and cfg = demo_config and kw = None]
  by (simp add: scrape_attempts.simps scraper_scrapeJobs_def page_waitForTimeout_def
      perform_def failing_env_def quiet_env_def indeed_scraper_def initial_world_def
      numeral_3_eq_3)

text \<open>
  The claim's fresh page for each retry is not what the code does: when the first
  attempt fails and the second succeeds, both are made on page 2 and the run has opened
  one page only.
\<close>

theorem scrape_retry_counterexample:
  "attempt_pages (events (snd (snd (scrape_run once_failing_env demo_config indeed_scraper
      (Some ''backend engineer'') (initial_world []))))) = [2, 2]
   \<and> page_openings (events (snd (snd (scrape_run once_failing_env demo_config indeed_scraper
      (Some ''backend engineer'') (initial_world []))))) = [NewPage 1]"
  by (simp add: scrape_run_def scrape_try_def scrape_finally_def scrape_attempts.simps
      scraper_scrapeJobs_def base_saveJobsToDatabase_def scrape_result_of_def
      run_defs once_failing_env_def quiet_env_def demo_config_def indeed_scraper_def
      initial_world_def)

section \<open>Batch submission\<close>






section \<open>Browser session pool\<close>

lemma distinct_all_equal: "distinct xs \<Longrightarrow> \<forall>x\<in>set xs. x = a \<Longrightarrow> length xs \<le> 1"
proof -
  assume d: "distinct xs" and e: "\<forall>x\<in>set xs. x = a"
  have "set xs \<subseteq> {a}" using e by auto
  then have "card (set xs) \<le> card {a}" by (intro card_mono) simp_all
  then show ?thesis using distinct_card [OF d] by simp
qed

lemma pool_inv_one_live:
  assumes "pool_inv w"
  shows "length (live_processes w key) \<le> 1"
proof (cases "browsers w key")
  case None
  have "live_processes w key = []"
    using assms None by (auto simp: live_processes_def pool_inv_def filter_empty_conv)
  then show ?thesis by simp
next
  case (Some a)
  have d: "distinct (live_processes w key)"
    using assms unfolding live_processes_def pool_inv_def
    by (auto intro!: distinct_filter distinct_map_filter)
  have "\<forall>x\<in>set (live_processes w key). x = a"
    using assms Some by (auto simp: live_processes_def pool_inv_def)
  then show ?thesis using d by (rule distinct_all_equal [rotated])
qed

lemma newContext_ok:
  "fails env (events w) (NewContext b) = None \<Longrightarrow>
     newContext env b w =
       (Inr (next_handle w),
        w\<lparr>events := events w @ [NewContext b], next_handle := Suc (next_handle w)\<rparr>)"
  by (simp add: newContext_def perform_def fresh_handle_def)

lemma newPage_ok:
  "fails env (events w) (NewPage c) = None \<Longrightarrow>
     newPage env c w =
       (Inr (next_handle w),
        w\<lparr>events := events w @ [NewPage c], next_handle := Suc (next_handle w)\<rparr>)"
  by (simp add: newPage_def perform_def fresh_handle_def)

lemma pool_inv_more_handles:
  "pool_inv w \<Longrightarrow> launched w' = launched w \<Longrightarrow> gone w' = gone w \<Longrightarrow>
     browsers w' = browsers w \<Longrightarrow> next_handle w \<le> next_handle w' \<Longrightarrow> pool_inv w'"
  by (fastforce simp: pool_inv_def handles_issued_def list_all_iff)

lemma newContext_handles:
  "newContext env b w = (r, w') \<Longrightarrow> next_handle w \<le> next_handle w'"
  by (auto simp: newContext_def perform_def fresh_handle_def split: option.splits)

lemma newPage_handles:
  "newPage env c w = (r, w') \<Longrightarrow> next_handle w \<le> next_handle w'"
  by (auto simp: newPage_def perform_def fresh_handle_def split: option.splits)

lemma restoreCookies_handles [simp]:
  "next_handle (restoreCookies env c w) = next_handle w"
  by (simp add: restoreCookies_def perform_def)

text \<open>A creation in which no call fails.\<close>

lemma create_browser_ok:
  assumes nf: "\<And>h c. fails env h c = None"
    and run: "create_browser env k p w = (r, w')"
  shows "launched w' = launched w @ [(next_handle w, k)] \<and> gone w' = gone w \<and>
         browsers w' = (browsers w)(k \<mapsto> next_handle w) \<and> next_handle w < next_handle w'"
proof -
  obtain r1 w1 where l: "chromium_launch env k p w = (r1, w1)"
    by (cases "chromium_launch env k p w")
  have r1: "r1 = Inr (next_handle w)" and n1: "next_handle w1 = Suc (next_handle w)"
    using l by (auto simp: chromium_launch_def perform_def fresh_handle_def nf)
  let ?b = "next_handle w"
  note l1 = chromium_launch_pool [OF l [unfolded r1]]
  obtain r2 w2 where c: "newContext env ?b w1 = (r2, w2)"
    by (cases "newContext env ?b w1")
  have r2: "\<exists>ctx. r2 = Inr ctx" using c by (auto simp: newContext_ok nf)
  then obtain ctx where ctx: "r2 = Inr ctx" by blast
  note c1 = newContext_pool [OF c] newContext_handles [OF c]
  obtain r3 w3 where g: "newPage env ctx (restoreCookies env ctx w2) = (r3, w3)"
    by (cases "newPage env ctx (restoreCookies env ctx w2)")
  have "\<exists>pg. r3 = Inr pg" using g by (auto simp: newPage_ok nf)
  then obtain pg where pg: "r3 = Inr pg" by blast
  note g1 = newPage_pool [OF g] newPage_handles [OF g]
  obtain r4 w4 where t: "setDefaultTimeouts env pg w3 = (r4, w4)"
    by (cases "setDefaultTimeouts env pg w3")
  have r4: "r4 = Inr ()"
    using t by (auto simp: setDefaultTimeouts_def perform_def nf)
  note t1 = pool_of_simps [OF setDefaultTimeouts_pool [OF t]]
  have "w' = w4\<lparr>browsers := (browsers w4)(k \<mapsto> ?b)\<rparr>"
    using run l r1 c ctx g pg t r4 by (simp add: create_browser_def)
  then show ?thesis using l1 c1 g1 t1 n1 by simp
qed

lemma pool_inv_create:
  assumes nf: "\<And>h c. fails env h c = None"
    and inv: "pool_inv w"
    and none: "\<forall>(b, k') \<in> set (launched w). k' = k \<longrightarrow> b \<in> set (gone w)"
    and run: "create_browser env k p w = (r, w')"
  shows "pool_inv w'"
proof -
  note c = create_browser_ok [OF nf run]
  have fresh: "next_handle w \<notin> fst ` set (launched w)"
    using inv by (force simp: pool_inv_def)
  show ?thesis
    unfolding pool_inv_def
  proof (intro conjI ballI)
    show "handles_issued w'"
      using inv c by (fastforce simp: pool_inv_def handles_issued_def list_all_iff)
  next
    show "distinct (map fst (launched w'))"
      using inv fresh c by (simp add: pool_inv_def)
  next
    fix x assume x: "x \<in> set (launched w')"
    obtain b k' where bk: "x = (b, k')" by (cases x)
    show "case x of (b, k) \<Rightarrow> b < next_handle w' \<and> (b \<notin> set (gone w') \<longrightarrow> browsers w' k = Some b)"
    proof (cases "x = (next_handle w, k)")
      case True
      then show ?thesis using c by simp
    next
      case False
      then have old: "(b, k') \<in> set (launched w)" using x c bk by auto
      then have "b < next_handle w" "b \<notin> set (gone w) \<longrightarrow> browsers w k' = Some b"
        using inv by (auto simp: pool_inv_def)
      moreover have "k' = k \<longrightarrow> b \<in> set (gone w)" using none old by auto
      ultimately show ?thesis using c bk by auto
    qed
  qed
qed

lemma pool_inv_acquire:
  assumes nf: "\<And>h c. fails env h c = None"
    and inv: "pool_inv w"
  shows "pool_inv (pool_step env (Acquire platform True) w)"
proof -
  let ?key = "toLowerCase platform"
  let ?opts = "\<lparr>opt_proxy = None, opt_useExisting = Some True\<rparr>"
  obtain r w' where run: "getBrowserForPlatform env platform ?opts w = (r, w')"
    by (cases "getBrowserForPlatform env platform ?opts w")
  have "pool_inv w'"
  proof (cases "browsers w ?key")
    case None
    then have cr: "create_browser env ?key None w = (r, w')"
      using run by (simp add: getBrowserForPlatform_def Let_def default_to_def)
    have "\<forall>(b, k') \<in> set (launched w). k' = ?key \<longrightarrow> b \<in> set (gone w)"
      using inv None by (auto simp: pool_inv_def)
    from pool_inv_create [OF nf inv this cr] show ?thesis .
  next
    case (Some b)
    show ?thesis
    proof (cases "isConnected w b")
      case True
      obtain r1 w1 where c: "newContext env b w = (r1, w1)"
        by (cases "newContext env b w")
      note c1 = newContext_pool [OF c] newContext_handles [OF c]
      have i1: "pool_inv w1" using pool_inv_more_handles [OF inv] c1 by simp
      show ?thesis
      proof (cases r1)
        case (Inl e)
        then have "w' = w1"
          using run Some True c by (simp add: getBrowserForPlatform_def Let_def default_to_def)
        then show ?thesis using i1 by simp
      next
        case (Inr ctx)
        obtain r2 w2 where g: "newPage env ctx w1 = (r2, w2)"
          by (cases "newPage env ctx w1")
        note g1 = newPage_pool [OF g] newPage_handles [OF g]
        have i2: "pool_inv w2" using pool_inv_more_handles [OF i1] g1 by simp
        have "w' = w2"
          using run Some True c Inr g
          by (cases r2) (simp_all add: getBrowserForPlatform_def Let_def default_to_def)
        then show ?thesis using i2 by simp
      qed
    next
      case False
      let ?w0 = "w\<lparr>browsers := (browsers w)(?key := None)\<rparr>"
      have cr: "create_browser env ?key None ?w0 = (r, w')"
        using run Some False by (simp add: getBrowserForPlatform_def Let_def default_to_def)
      have none: "\<forall>(b', k') \<in> set (launched w). k' = ?key \<longrightarrow> b' \<in> set (gone w)"
      proof (clarify, rule ccontr)
        fix b' assume m: "(b', ?key) \<in> set (launched w)" and g: "b' \<notin> set (gone w)"
        then have "browsers w ?key = Some b'" using inv by (auto simp: pool_inv_def)
        then have "b' = b" using Some by simp
        then have "isConnected w b" using m g by (force simp: isConnected_def)
        then show False using False by simp
      qed
      have inv0: "pool_inv ?w0"
        using inv none by (auto simp: pool_inv_def handles_issued_def)
      have none0: "\<forall>(b', k') \<in> set (launched ?w0). k' = ?key \<longrightarrow> b' \<in> set (gone ?w0)"
        using none by simp
      from pool_inv_create [OF nf inv0 none0 cr] show ?thesis .
    qed
  qed
  then show ?thesis using run by simp
qed

lemma pool_inv_disconnect:
  assumes inv: "pool_inv w"
  shows "pool_inv (disconnect b w)"
proof (cases "isConnected w b")
  case False
  then show ?thesis using inv by (simp add: disconnect_def)
next
  case True
  then obtain key where m: "(b, key) \<in> set (launched w)" and g: "b \<notin> set (gone w)"
    by (auto simp: isConnected_def)
  have d: "distinct (map fst (launched w))" using inv by (simp add: pool_inv_def)
  have mo: "map_of (launched w) b = Some key" using m d by simp
  have e: "browsers w key = Some b" using inv m g by (auto simp: pool_inv_def)
  have w': "disconnect b w = w\<lparr>gone := b # gone w, browsers := (browsers w)(key := None)\<rparr>"
    using True mo e by (simp add: disconnect_def on_disconnected_def)
  show ?thesis
    unfolding w' pool_inv_def
  proof (intro conjI ballI)
    have "b < next_handle w" using inv m by (auto simp: pool_inv_def)
    then show "handles_issued (w\<lparr>gone := b # gone w,
              browsers := (browsers w)(key := None)\<rparr>)"
      using inv by (simp add: pool_inv_def handles_issued_def)
  next
    show "distinct (map fst (launched (w\<lparr>gone := b # gone w,
              browsers := (browsers w)(key := None)\<rparr>)))"
      using d by simp
  next
    fix x assume x: "x \<in> set (launched (w\<lparr>gone := b # gone w,
              browsers := (browsers w)(key := None)\<rparr>))"
    obtain b' k' where bk: "x = (b', k')" by (cases x)
    have old: "b' < next_handle w" "b' \<notin> set (gone w) \<longrightarrow> browsers w k' = Some b'"
      using inv x bk by (auto simp: pool_inv_def)
    have "k' \<noteq> key" if "b' \<noteq> b" "b' \<notin> set (gone w)"
    proof
      assume "k' = key"
      then have "browsers w key = Some b'" using old(2) that by simp
      then show False using e that by simp
    qed
    then show "case x of (b', k) \<Rightarrow>
        b' < next_handle (w\<lparr>gone := b # gone w, browsers := (browsers w)(key := None)\<rparr>) \<and>
        (b' \<notin> set (gone (w\<lparr>gone := b # gone w, browsers := (browsers w)(key := None)\<rparr>)) \<longrightarrow>
         browsers (w\<lparr>gone := b # gone w, browsers := (browsers w)(key := None)\<rparr>) k = Some b')"
      using old bk by auto
  qed
qed

lemma pool_inv_run:
  assumes nf: "\<And>h c. fails env h c = None"
  shows "pool_inv w \<Longrightarrow> list_all reuse_enabled ops \<Longrightarrow> pool_inv (pool_run env ops w)"
proof (induction ops arbitrary: w)
  case Nil
  then show ?case by simp
next
  case (Cons x xs)
  have "pool_inv (pool_step env x w)"
  proof (cases x)
    case (Acquire platform u)
    then have "u" using Cons.prems(2) by simp
    then show ?thesis using pool_inv_acquire [OF nf Cons.prems(1)] Acquire by simp
  next
    case (Disconnect b)
    then show ?thesis using pool_inv_disconnect [OF Cons.prems(1)] by simp
  qed
  then show ?case using Cons.IH Cons.prems(2) by simp
qed

lemma disconnect_evicts:
  assumes inv: "pool_inv w" and m: "(b, k) \<in> set (launched w)" and c: "isConnected w b"
  shows "browsers (disconnect b w) k = None \<and> \<not> isConnected (disconnect b w) b"
proof -
  have d: "distinct (map fst (launched w))" using inv by (simp add: pool_inv_def)
  have mo: "map_of (launched w) b = Some k" using m d by simp
  show ?thesis using c mo by (simp add: disconnect_def on_disconnected_def isConnected_def)
qed

lemma reuse_same_process:
  assumes a1: "getBrowserForPlatform env platform opts w = (Inr h, w1)"
    and wf: "handles_issued w"
    and u: "default_to True (opt_useExisting opts')"
    and a2: "getBrowserForPlatform env platform opts' w1 = (Inr h', w2)"
  shows "h_browser h' = h_browser h \<and> launched w2 = launched w1"
proof -
  let ?key = "toLowerCase platform"
  let ?b = "h_browser h"
  have av: "isConnected w1 ?b" "browsers w1 ?key = Some ?b"
    using getBrowserForPlatform_available [OF a1 wf] by (simp_all add: available_for_reuse_def)
  obtain r1 w3 where c: "newContext env ?b w1 = (r1, w3)"
    by (cases "newContext env ?b w1")
  note c1 = newContext_pool [OF c]
  show ?thesis
  proof (cases r1)
    case (Inl e)
    then show ?thesis using a2 u av c by (simp add: getBrowserForPlatform_def Let_def)
  next
    case (Inr ctx)
    obtain r2 w4 where g: "newPage env ctx w3 = (r2, w4)"
      by (cases "newPage env ctx w3")
    note g1 = newPage_pool [OF g]
    show ?thesis
      using a2 u av c Inr g c1 g1
      by (cases r2) (auto simp: getBrowserForPlatform_def Let_def)
  qed
qed

lemma stale_entry_evicted:
  assumes "browsers w (toLowerCase platform) = Some b" "\<not> isConnected w b"
    "default_to True (opt_useExisting opts)"
  shows "getBrowserForPlatform env platform opts w =
           create_browser env (toLowerCase platform) (opt_proxy opts)
             (w\<lparr>browsers := (browsers w)(toLowerCase platform := None)\<rparr>)"
  using assms by (simp add: getBrowserForPlatform_def Let_def)

text \<open>
  Claim C4, amended.  After every sequence of acquisitions made with \<open>useExisting\<close> and of
  disconnect events in which no browser call fails, the pool has at most one live
  process per platform key.  An acquisition with \<open>useExisting\<close> that follows an
  acquisition for the same platform returns the same process and launches none.  A
  process that has disconnected is evicted before a new one is created for its key: its
  \<open>disconnected\<close> handler deletes the entry, and an acquisition with \<open>useExisting\<close> that
  finds a stale entry deletes it before it launches.
\<close>

theorem pool_one_process_per_key:
  assumes "\<forall>h c. fails env h c = None" and "pool_inv w" and "list_all reuse_enabled ops"
  shows "length (live_processes (pool_run env ops w) key) \<le> 1
    \<and> (\<forall>platform opts opts' h w1 h' w2.
          getBrowserForPlatform env platform opts (pool_run env ops w) = (Inr h, w1) \<and>
          default_to True (opt_useExisting opts') \<and>
          getBrowserForPlatform env platform opts' w1 = (Inr h', w2)
          \<longrightarrow> h_browser h' = h_browser h \<and> launched w2 = launched w1)
    \<and> (\<forall>b k. (b, k) \<in> set (launched (pool_run env ops w)) \<and>
          isConnected (pool_run env ops w) b
          \<longrightarrow> browsers (disconnect b (pool_run env ops w)) k = None \<and>
              \<not> isConnected (disconnect b (pool_run env ops w)) b)
    \<and> (\<forall>platform opts b.
          browsers (pool_run env ops w) (toLowerCase platform) = Some b \<and>
          \<not> isConnected (pool_run env ops w) b \<and> default_to True (opt_useExisting opts)
          \<longrightarrow> getBrowserForPlatform env platform opts (pool_run env ops w) =
                create_browser env (toLowerCase platform) (opt_proxy opts)
                  ((pool_run env ops w)
                     \<lparr>browsers := (browsers (pool_run env ops w))(toLowerCase platform := None)\<rparr>))"
proof -
  have nf: "\<And>h c. fails env h c = None" using assms(1) by simp
  have inv: "pool_inv (pool_run env ops w)"
    by (rule pool_inv_run [OF nf assms(2) assms(3)])
  then have wf: "handles_issued (pool_run env ops w)" by (simp add: pool_inv_def)
  show ?thesis
  proof (intro conjI allI impI)
    show "length (live_processes (pool_run env ops w) key) \<le> 1"
      by (rule pool_inv_one_live [OF inv])
  next
    fix platform opts opts' h w1 h' w2
    assume a: "getBrowserForPlatform env platform opts (pool_run env ops w) = (Inr h, w1) \<and>
          default_to True (opt_useExisting opts') \<and>
          getBrowserForPlatform env platform opts' w1 = (Inr h', w2)"
    from reuse_same_process [OF conjunct1 [OF a] wf conjunct1 [OF conjunct2 [OF a]]
        conjunct2 [OF conjunct2 [OF a]]]
    show "h_browser h' = h_browser h" and "launched w2 = launched w1" by simp_all
  next
    fix b k
    assume a: "(b, k) \<in> set (launched (pool_run env ops w)) \<and>
          isConnected (pool_run env ops w) b"
    from disconnect_evicts [OF inv conjunct1 [OF a] conjunct2 [OF a]]
    show "browsers (disconnect b (pool_run env ops w)) k = None"
      and "\<not> isConnected (disconnect b (pool_run env ops w)) b" by simp_all
  next
    fix platform and opts :: acquire_options and b
    assume a: "browsers (pool_run env ops w) (toLowerCase platform) = Some b \<and>
          \<not> isConnected (pool_run env ops w) b \<and> default_to True (opt_useExisting opts)"
    show "getBrowserForPlatform env platform opts (pool_run env ops w) =
                create_browser env (toLowerCase platform) (opt_proxy opts)
                  ((pool_run env ops w)
                     \<lparr>browsers := (browsers (pool_run env ops w))(toLowerCase platform := None)\<rparr>)"
      by (rule stale_entry_evicted [OF conjunct1 [OF a] conjunct1 [OF conjunct2 [OF a]]
            conjunct2 [OF conjunct2 [OF a]]])
  qed
qed

lemma quiet_pool_run:
  "pool_run quiet_env
     [Acquire ''linkedin'' True, Acquire ''linkedin'' True, Disconnect 0,
      Acquire ''linkedin'' True] (initial_world []) =
   \<lparr>events = [Launch ''linkedin'' None, NewContext 0, NewPage 1, SetTimeouts 2,
              NewContext 0, NewPage 3,
              Launch ''linkedin'' None, NewContext 5, NewPage 6, SetTimeouts 7],
    currentProxyIndex = 0, browsers = [''linkedin'' \<mapsto> 5],
    launched = [(0, ''linkedin''), (5, ''linkedin'')], gone = [0], next_handle = 8,
    jobs_table = []\<rparr>"
  by (simp add: run_defs quiet_env_def initial_world_def eval_nat_numeral)

theorem pool_one_process_per_key_witness:
  "(\<forall>h c. fails quiet_env h c = None) \<and> pool_inv (initial_world [])
   \<and> list_all reuse_enabled
        [Acquire ''linkedin'' True, Acquire ''linkedin'' True, Disconnect 0,
         Acquire ''linkedin'' True]
   \<and> live_processes
        (pool_run quiet_env
           [Acquire ''linkedin'' True, Acquire ''linkedin'' True, Disconnect 0,
            Acquire ''linkedin'' True] (initial_world [])) ''linkedin'' = [5]"
proof -
  have a: "\<forall>h c. fails quiet_env h c = None" by simp
  have b: "pool_inv (initial_world [])"
    by (simp add: pool_inv_def handles_issued_def initial_world_def)
  have c: "list_all reuse_enabled
        [Acquire ''linkedin'' True, Acquire ''linkedin'' True, Disconnect 0,
         Acquire ''linkedin'' True]" by simp
  note t = conjunct1 [OF pool_one_process_per_key [OF a b c, of "''linkedin''"]]
  have "live_processes
        (pool_run quiet_env
           [Acquire ''linkedin'' True, Acquire ''linkedin'' True, Disconnect 0,
            Acquire ''linkedin'' True] (initial_world [])) ''linkedin'' = [5]"
    using t unfolding quiet_pool_run by (simp add: live_processes_def)
  then show ?thesis using a b c by blast
qed

text \<open>
  With \<open>useExisting: false\<close>, as the scrape operations and \<open>testPlatform\<close> acquire, a new
  process is launched while the pooled one stays connected: two live processes for the
  key.
\<close>

theorem pool_two_processes_counterexample:
  "live_processes
     (pool_run quiet_env [Acquire ''linkedin'' True, Acquire ''linkedin'' False]
        (initial_world [])) ''linkedin'' = [0, 3]
   \<and> \<not> length [0, 3 :: nat] \<le> 1"
  by (simp add: live_processes_def run_defs quiet_env_def initial_world_def)

section \<open>Multi-step submission loops\<close>

lemma linkedin_loop_upto_Some:
  "linkedin_loop_upto n fx s = Some r \<Longrightarrow> linkedin_loop fx s = Some r"
proof (induction n arbitrary: s)
  case 0
  then show ?case by simp
next
  case (Suc n)
  obtain acts it where i: "linkedin_iteration fx (fst s) = (acts, it)"
    by (cases "linkedin_iteration fx (fst s)")
  show ?case
  proof (cases it)
    case (Again p')
    then have "linkedin_loop_upto n fx (p', snd s @ acts) = Some r"
      using Suc.prems i by simp
    from Suc.IH [OF this] show ?thesis
      using i Again by (subst linkedin_loop.simps) simp
  next
    case (Returned v p')
    then show ?thesis using Suc.prems i by (subst linkedin_loop.simps) simp
  next
    case (Threw e p')
    then show ?thesis using Suc.prems i by (subst linkedin_loop.simps) simp
  qed
qed

lemma linkedin_loop_Some_upto:
  assumes a: "linkedin_loop fx s = Some r"
  shows "\<exists>n. linkedin_loop_upto n fx s = Some r"
proof (rule linkedin_loop.raw_induct
    [where P = "\<lambda>fx s r. \<exists>n. linkedin_loop_upto n fx s = Some r", OF _ a])
  fix loop fx s r
  assume IH: "\<And>fx s r. loop fx s = Some r \<Longrightarrow> \<exists>n. linkedin_loop_upto n fx s = Some r"
    and body: "(case linkedin_iteration fx (fst s) of
        (acts, Again p') \<Rightarrow> loop fx (p', snd s @ acts)
      | (acts, Returned v p') \<Rightarrow> Some (Inr v, p', snd s @ acts)
      | (acts, Threw e p') \<Rightarrow> Some (Inl e, p', snd s @ acts)) = Some r"
  obtain acts it where i: "linkedin_iteration fx (fst s) = (acts, it)"
    by (cases "linkedin_iteration fx (fst s)")
  show "\<exists>n. linkedin_loop_upto n fx s = Some r"
  proof (cases it)
    case (Again p')
    then have "loop fx (p', snd s @ acts) = Some r" using body i by simp
    from IH [OF this] obtain n where "linkedin_loop_upto n fx (p', snd s @ acts) = Some r"
      by blast
    then have "linkedin_loop_upto (Suc n) fx s = Some r" using i Again by simp
    then show ?thesis by (rule exI)
  next
    case (Returned v p')
    then have "linkedin_loop_upto (Suc 0) fx s = Some r" using body i by simp
    then show ?thesis by (rule exI)
  next
    case (Threw e p')
    then have "linkedin_loop_upto (Suc 0) fx s = Some r" using body i by simp
    then show ?thesis by (rule exI)
  qed
qed

lemma form_loop_upto_Some:
  "form_loop_upto n platform fx s = Some r \<Longrightarrow> form_loop platform fx s = Some r"
proof (induction n arbitrary: s)
  case 0
  then show ?case by simp
next
  case (Suc n)
  obtain acts it where i: "form_iteration platform fx (fst s) = (acts, it)"
    by (cases "form_iteration platform fx (fst s)")
  show ?case
  proof (cases it)
    case (Again p')
    then have "form_loop_upto n platform fx (p', snd s @ acts) = Some r"
      using Suc.prems i by simp
    from Suc.IH [OF this] show ?thesis
      using i Again by (subst form_loop.simps) simp
  next
    case (Returned v p')
    then show ?thesis using Suc.prems i by (subst form_loop.simps) simp
  next
    case (Threw e p')
    then show ?thesis using Suc.prems i by (subst form_loop.simps) simp
  qed
qed

lemma form_loop_Some_upto:
  assumes a: "form_loop platform fx s = Some r"
  shows "\<exists>n. form_loop_upto n platform fx s = Some r"
proof (rule form_loop.raw_induct
    [where P = "\<lambda>platform fx s r. \<exists>n. form_loop_upto n platform fx s = Some r", OF _ a])
  fix loop platform fx s r
  assume IH: "\<And>platform fx s r. loop platform fx s = Some r \<Longrightarrow>
                \<exists>n. form_loop_upto n platform fx s = Some r"
    and body: "(case form_iteration platform fx (fst s) of
        (acts, Again p') \<Rightarrow> loop platform fx (p', snd s @ acts)
      | (acts, Returned v p') \<Rightarrow> Some (Inr v, p', snd s @ acts)
      | (acts, Threw e p') \<Rightarrow> Some (Inl e, p', snd s @ acts)) = Some r"
  obtain acts it where i: "form_iteration platform fx (fst s) = (acts, it)"
    by (cases "form_iteration platform fx (fst s)")
  show "\<exists>n. form_loop_upto n platform fx s = Some r"
  proof (cases it)
    case (Again p')
    then have "loop platform fx (p', snd s @ acts) = Some r" using body i by simp
    from IH [OF this] obtain n where
      "form_loop_upto n platform fx (p', snd s @ acts) = Some r"
      by blast
    then have "form_loop_upto (Suc n) platform fx s = Some r" using i Again by simp
    then show ?thesis by (rule exI)
  next
    case (Returned v p')
    then have "form_loop_upto (Suc 0) platform fx s = Some r" using body i by simp
    then show ?thesis by (rule exI)
  next
    case (Threw e p')
    then have "form_loop_upto (Suc 0) platform fx s = Some r" using body i by simp
    then show ?thesis by (rule exI)
  qed
qed

lemma linkedin_loop_once:
  "linkedin_loop_upto (Suc 0) fx s = Some r \<Longrightarrow> linkedin_loop fx s = Some r"
  by (rule linkedin_loop_upto_Some)

lemma linkedin_no_control:
  assumes "waitForTimeout fx p = None" "\<not> elementExists fx p NextButton"
    "\<not> elementExists fx p SubmitButton" "\<not> elementExists fx p ReviewButton"
  shows "linkedin_loop fx (p, acts) =
           Some (Inl (new_PlatformError ''linkedin''
                        ''Could not find navigation buttons in application form''),
                 fill_step fx p,
                 acts @ [Wait, Inspect NextButton, Inspect SubmitButton, Inspect ReviewButton,
                         Fill])"
  using assms by (intro linkedin_loop_once) (simp add: linkedin_iteration_def)

lemma linkedin_submit_success:
  assumes "waitForTimeout fx p = None" "\<not> elementExists fx p ReviewButton"
    "elementExists fx p SubmitButton" "click fx (fill_step fx p) SubmitButton = Inr p2"
    "waitForTimeout fx p2 = None" "elementExists fx p2 SuccessFeedback"
  shows "linkedin_loop fx (p, acts) =
           Some (Inr True, p2,
                 acts @ [Wait, Inspect NextButton, Inspect SubmitButton, Inspect ReviewButton,
                         Fill, Click SubmitButton, Wait, Inspect SuccessFeedback])"
  using assms by (intro linkedin_loop_once) (simp add: linkedin_iteration_def)

lemma linkedin_submit_failure:
  assumes "waitForTimeout fx p = None" "\<not> elementExists fx p ReviewButton"
    "elementExists fx p SubmitButton" "click fx (fill_step fx p) SubmitButton = Inr p2"
    "waitForTimeout fx p2 = None" "\<not> elementExists fx p2 SuccessFeedback"
    "elementExists fx p2 ErrorFeedback"
  shows "linkedin_loop fx (p, acts) =
           Some (Inl (new_PlatformError ''linkedin''
                        (''Application failed: '' @ text_or_null (elementText fx p2 ErrorFeedback))),
                 p2,
                 acts @ [Wait, Inspect NextButton, Inspect SubmitButton, Inspect ReviewButton,
                         Fill, Click SubmitButton, Wait, Inspect SuccessFeedback,
                         Inspect ErrorFeedback])"
  using assms by (intro linkedin_loop_once) (simp add: linkedin_iteration_def)

lemma form_no_control:
  assumes "waitForTimeout fx p = None" "\<not> elementExists fx (fill_step fx p) NextButton"
    "\<not> elementExists fx (fill_step fx p) SubmitButton"
    "\<not> elementExists fx (fill_step fx p) ReviewButton" "body_text fx (fill_step fx p) = Inr t"
  shows "form_loop platform fx (p, acts) =
           Some (Inl (new_PlatformError platform
                        (''Could not find navigation buttons in application form. ''
                         @ ''Page text: '' @ take 200 t @ ''...'')),
                 fill_step fx p,
                 acts @ [Wait, Fill, Inspect NextButton, Inspect SubmitButton,
                         Inspect ReviewButton])"
  using assms by (intro form_loop_upto_Some [of "Suc 0"]) (simp add: form_iteration_def)

lemma form_submit:
  assumes "waitForTimeout fx p = None" "elementExists fx (fill_step fx p) SubmitButton"
    "click fx (fill_step fx p) SubmitButton = Inr p2"
  shows "form_loop platform fx (p, acts) =
           Some (Inr (), p2,
                 acts @ [Wait, Fill, Inspect NextButton, Inspect SubmitButton,
                         Inspect ReviewButton, Click SubmitButton])"
  using assms by (intro form_loop_upto_Some [of "Suc 0"]) (simp add: form_iteration_def)

lemma stuck_linkedin_upto: "linkedin_loop_upto n stuck_fixture s = None"
  by (induction n arbitrary: s) (simp_all add: linkedin_iteration_def stuck_fixture_def)

lemma stuck_form_upto: "form_loop_upto n platform stuck_fixture s = None"
  by (induction n arbitrary: s)
    (simp_all add: form_iteration_def click_then_wait_def stuck_fixture_def)

text \<open>
  Claim C2, amended.  The submission loops run for as many iterations as the page takes
  to reach a step that ends them: a loop returns a result exactly when some number of
  iterations does, and no maximum number of iterations is enforced.  An iteration ends
  the loop when the step exposes none of the submit, review and continue controls (it
  throws the platform error \<open>Could not find navigation buttons in application form\<close>
  instead of going round again), and when it clicks the submit control (on LinkedIn the
  success and error feedback is then read: \<open>true\<close>, or the platform error
  \<open>Application failed\<close>).
\<close>

theorem submission_loop_ends:
  "(linkedin_loop fx s = Some r \<longleftrightarrow> (\<exists>n. linkedin_loop_upto n fx s = Some r))
   \<and> (form_loop platform fx s = Some r' \<longleftrightarrow> (\<exists>n. form_loop_upto n platform fx s = Some r'))
   \<and> (waitForTimeout fx p = None \<and> \<not> elementExists fx p NextButton \<and>
       \<not> elementExists fx p SubmitButton \<and> \<not> elementExists fx p ReviewButton
       \<longrightarrow> linkedin_loop fx (p, acts) =
             Some (Inl (new_PlatformError ''linkedin''
                          ''Could not find navigation buttons in application form''),
                   fill_step fx p,
                   acts @ [Wait, Inspect NextButton, Inspect SubmitButton, Inspect ReviewButton,
                           Fill]))
   \<and> (waitForTimeout fx p = None \<and> \<not> elementExists fx (fill_step fx p) NextButton \<and>
       \<not> elementExists fx (fill_step fx p) SubmitButton \<and>
       \<not> elementExists fx (fill_step fx p) ReviewButton \<and>
       body_text fx (fill_step fx p) = Inr t
       \<longrightarrow> form_loop platform fx (p, acts) =
             Some (Inl (new_PlatformError platform
                          (''Could not find navigation buttons in application form. ''
                           @ ''Page text: '' @ take 200 t @ ''...'')),
                   fill_step fx p,
                   acts @ [Wait, Fill, Inspect NextButton, Inspect SubmitButton,
                           Inspect ReviewButton]))
   \<and> (waitForTimeout fx p = None \<and> elementExists fx (fill_step fx p) SubmitButton \<and>
       click fx (fill_step fx p) SubmitButton = Inr p2
       \<longrightarrow> form_loop platform fx (p, acts) =
             Some (Inr (), p2,
                   acts @ [Wait, Fill, Inspect NextButton, Inspect SubmitButton,
                           Inspect ReviewButton, Click SubmitButton]))
   \<and> (waitForTimeout fx p = None \<and> \<not> elementExists fx p ReviewButton \<and>
       elementExists fx p SubmitButton \<and> click fx (fill_step fx p) SubmitButton = Inr p2 \<and>
       waitForTimeout fx p2 = None \<and> elementExists fx p2 SuccessFeedback
       \<longrightarrow> linkedin_loop fx (p, acts) =
             Some (Inr True, p2,
                   acts @ [Wait, Inspect NextButton, Inspect SubmitButton, Inspect ReviewButton,
                           Fill, Click SubmitButton, Wait, Inspect SuccessFeedback]))
   \<and> (waitForTimeout fx p = None \<and> \<not> elementExists fx p ReviewButton \<and>
       elementExists fx p SubmitButton \<and> click fx (fill_step fx p) SubmitButton = Inr p2 \<and>
       waitForTimeout fx p2 = None \<and> \<not> elementExists fx p2 SuccessFeedback \<and>
       elementExists fx p2 ErrorFeedback
       \<longrightarrow> linkedin_loop fx (p, acts) =
             Some (Inl (new_PlatformError ''linkedin''
                          (''Application failed: '' @
                           text_or_null (elementText fx p2 ErrorFeedback))),
                   p2,
                   acts @ [Wait, Inspect NextButton, Inspect SubmitButton, Inspect ReviewButton,
                           Fill, Click SubmitButton, Wait, Inspect SuccessFeedback,
                           Inspect ErrorFeedback]))"
proof (intro conjI impI)
  show "linkedin_loop fx s = Some r \<longleftrightarrow> (\<exists>n. linkedin_loop_upto n fx s = Some r)"
    using linkedin_loop_Some_upto linkedin_loop_upto_Some by blast
  show "form_loop platform fx s = Some r' \<longleftrightarrow> (\<exists>n. form_loop_upto n platform fx s = Some r')"
    using form_loop_Some_upto form_loop_upto_Some by blast
qed (simp_all add: linkedin_no_control form_no_control form_submit linkedin_submit_success
      linkedin_submit_failure)

theorem submission_loop_ends_witness:
  "linkedin_loop wizard_fixture (0, []) =
     Some (Inr True, 4,
       [Wait, Inspect NextButton, Inspect SubmitButton, Inspect ReviewButton, Fill,
        Click NextButton,
        Wait, Inspect NextButton, Inspect SubmitButton, Inspect ReviewButton, Fill,
        Click NextButton,
        Wait, Inspect NextButton, Inspect SubmitButton, Inspect ReviewButton, Fill,
        Click ReviewButton,
        Wait, Inspect NextButton, Inspect SubmitButton, Inspect ReviewButton, Fill,
        Click SubmitButton, Wait, Inspect SuccessFeedback])"
proof -
  let ?r = "(Inr True, 4 :: nat,
       [Wait, Inspect NextButton, Inspect SubmitButton, Inspect ReviewButton, Fill,
        Click NextButton,
        Wait, Inspect NextButton, Inspect SubmitButton, Inspect ReviewButton, Fill,
        Click NextButton,
        Wait, Inspect NextButton, Inspect SubmitButton, Inspect ReviewButton, Fill,
        Click ReviewButton,
        Wait, Inspect NextButton, Inspect SubmitButton, Inspect ReviewButton, Fill,
        Click SubmitButton, Wait, Inspect SuccessFeedback])"
  have "linkedin_loop_upto (Suc (Suc (Suc (Suc 0)))) wizard_fixture (0, []) = Some ?r"
    by (simp add: linkedin_iteration_def wizard_fixture_def)
  then have e: "\<exists>n. linkedin_loop_upto n wizard_fixture (0, []) = Some ?r" by (rule exI)
  from conjunct1 [OF submission_loop_ends [where fx = wizard_fixture and s = "(0, [])"
        and r = ?r]] e
  show ?thesis by simp
qed

text \<open>
  Nothing bounds the number of iterations: on a page that shows the continue control at
  every step neither loop ever returns.
\<close>

theorem submission_loop_counterexample:
  "linkedin_loop stuck_fixture ((), []) = None
   \<and> handleIndeedApplyForm stuck_fixture () = None"
proof
  show "linkedin_loop stuck_fixture ((), []) = None"
  proof (cases "linkedin_loop stuck_fixture ((), [])")
    case (Some r)
    from linkedin_loop_Some_upto [OF this] show ?thesis by (simp add: stuck_linkedin_upto)
  qed simp
  show "handleIndeedApplyForm stuck_fixture () = None"
  proof (cases "form_loop ''indeed'' stuck_fixture ((), [])")
    case (Some r)
    from form_loop_Some_upto [OF this] show ?thesis by (simp add: stuck_form_upto)
  next
    case None
    then show ?thesis by (simp add: handleIndeedApplyForm_def)
  qed
qed

section \<open>One control per iteration\<close>

lemma clicks_simps [simp]:
  "clicks [] = []"
  "clicks (Click c # as) = Click c # clicks as"
  "clicks (Wait # as) = clicks as"
  "clicks (Fill # as) = clicks as"
  "clicks (Inspect c # as) = clicks as"
  by (simp_all add: clicks_def)

lemma chosen_simps:
  "chosen [a, b, c] found =
     (if found a then [Click a] else if found b then [Click b]
      else if found c then [Click c] else [])"
  by (simp add: chosen_def)

lemma form_iteration_actions:
  assumes "waitForTimeout fx p = None"
  shows "take 5 (fst (form_iteration platform fx p)) =
           [Wait, Fill, Inspect NextButton, Inspect SubmitButton, Inspect ReviewButton]"
    and "clicks (fst (form_iteration platform fx p)) =
           chosen [SubmitButton, ReviewButton, NextButton] (elementExists fx (fill_step fx p))"
    and "filter (\<lambda>a. a = Fill) (fst (form_iteration platform fx p)) = [Fill]"
  using assms
  by (auto simp: form_iteration_def click_then_wait_def chosen_simps Let_def
      split: sum.splits option.splits)

lemma linkedin_iteration_actions:
  assumes "waitForTimeout fx p = None"
  shows "take 5 (fst (linkedin_iteration fx p)) =
           [Wait, Inspect NextButton, Inspect SubmitButton, Inspect ReviewButton, Fill]"
    and "clicks (fst (linkedin_iteration fx p)) =
           chosen [ReviewButton, SubmitButton, NextButton] (elementExists fx p)"
    and "filter (\<lambda>a. a = Fill) (fst (linkedin_iteration fx p)) = [Fill]"
  using assms
  by (auto simp: linkedin_iteration_def chosen_simps Let_def
      split: sum.splits option.splits)

lemma chosen_one:
  "found a \<or> found b \<or> found c \<Longrightarrow> length (chosen [a, b, c] found) = 1"
  by (auto simp: chosen_simps)

text \<open>
  Claim C3, amended.  In every iteration of the Indeed and Glassdoor loops the adapter
  fills the inputs of the step, then inspects for the continue, submit and review
  controls, and clicks exactly one of those it found, in the priority order submit,
  review, continue (none when it found none).  In every iteration of the LinkedIn loop
  the adapter inspects for the three controls before it fills the inputs of the step, and
  clicks exactly one of those it found, in the priority order review, submit, continue.
\<close>

theorem one_control_per_iteration:
  "(waitForTimeout fx p = None \<longrightarrow>
      take 5 (fst (form_iteration platform fx p)) =
        [Wait, Fill, Inspect NextButton, Inspect SubmitButton, Inspect ReviewButton]
      \<and> filter (\<lambda>a. a = Fill) (fst (form_iteration platform fx p)) = [Fill]
      \<and> clicks (fst (form_iteration platform fx p)) =
          chosen [SubmitButton, ReviewButton, NextButton] (elementExists fx (fill_step fx p))
      \<and> (elementExists fx (fill_step fx p) SubmitButton \<or>
          elementExists fx (fill_step fx p) ReviewButton \<or>
          elementExists fx (fill_step fx p) NextButton
          \<longrightarrow> length (clicks (fst (form_iteration platform fx p))) = 1))
   \<and> (waitForTimeout fx p = None \<longrightarrow>
      take 5 (fst (linkedin_iteration fx p)) =
        [Wait, Inspect NextButton, Inspect SubmitButton, Inspect ReviewButton, Fill]
      \<and> filter (\<lambda>a. a = Fill) (fst (linkedin_iteration fx p)) = [Fill]
      \<and> clicks (fst (linkedin_iteration fx p)) =
          chosen [ReviewButton, SubmitButton, NextButton] (elementExists fx p)
      \<and> (elementExists fx p ReviewButton \<or> elementExists fx p SubmitButton \<or>
          elementExists fx p NextButton
          \<longrightarrow> length (clicks (fst (linkedin_iteration fx p))) = 1))"
proof (intro conjI impI)
  assume w: "waitForTimeout fx p = None"
  note f = form_iteration_actions [OF w, of platform]
  note l = linkedin_iteration_actions [OF w]
  show "take 5 (fst (form_iteration platform fx p)) =
        [Wait, Fill, Inspect NextButton, Inspect SubmitButton, Inspect ReviewButton]"
    by (rule f(1))
  show "filter (\<lambda>a. a = Fill) (fst (form_iteration platform fx p)) = [Fill]" by (rule f(3))
  show "clicks (fst (form_iteration platform fx p)) =
          chosen [SubmitButton, ReviewButton, NextButton] (elementExists fx (fill_step fx p))"
    by (rule f(2))
  show "take 5 (fst (linkedin_iteration fx p)) =
        [Wait, Inspect NextButton, Inspect SubmitButton, Inspect ReviewButton, Fill]"
    by (rule l(1))
  show "filter (\<lambda>a. a = Fill) (fst (linkedin_iteration fx p)) = [Fill]" by (rule l(3))
  show "clicks (fst (linkedin_iteration fx p)) =
          chosen [ReviewButton, SubmitButton, NextButton] (elementExists fx p)"
    by (rule l(2))
  show "length (clicks (fst (form_iteration platform fx p))) = 1"
    if "elementExists fx (fill_step fx p) SubmitButton \<or>
          elementExists fx (fill_step fx p) ReviewButton \<or>
          elementExists fx (fill_step fx p) NextButton"
    unfolding f(2) by (rule chosen_one [OF that])
  show "length (clicks (fst (linkedin_iteration fx p))) = 1"
    if "elementExists fx p ReviewButton \<or> elementExists fx p SubmitButton \<or>
          elementExists fx p NextButton"
    unfolding l(2) by (rule chosen_one [OF that])
qed

theorem one_control_per_iteration_witness:
  "waitForTimeout wizard_fixture 2 = None
   \<and> fst (form_iteration ''indeed'' wizard_fixture 2) =
       [Wait, Fill, Inspect NextButton, Inspect SubmitButton, Inspect ReviewButton,
        Click ReviewButton, Wait]
   \<and> chosen [SubmitButton, ReviewButton, NextButton]
        (elementExists wizard_fixture (fill_step wizard_fixture 2)) = [Click ReviewButton]
   \<and> fst (linkedin_iteration wizard_fixture 2) =
       [Wait, Inspect NextButton, Inspect SubmitButton, Inspect ReviewButton, Fill,
        Click ReviewButton]"
  using one_control_per_iteration [where fx = wizard_fixture and p = 2
      and platform = "''indeed''"]
  by (simp add: form_iteration_def linkedin_iteration_def click_then_wait_def
      wizard_fixture_def chosen_simps)

text \<open>
  The claim's order fails on LinkedIn: on a step that shows the review and the submit
  control the adapter clicks review, not submit, and it has inspected for the controls
  before filling the inputs.
\<close>

theorem linkedin_priority_counterexample:
  "fst (linkedin_iteration both_fixture ()) =
     [Wait, Inspect NextButton, Inspect SubmitButton, Inspect ReviewButton, Fill,
      Click ReviewButton]
   \<and> chosen [SubmitButton, ReviewButton, NextButton] (elementExists both_fixture ()) =
     [Click SubmitButton]"
  by (simp add: linkedin_iteration_def both_fixture_def chosen_simps)

end
